theory Spec2Isabelle
  imports Complex_Main "HOL-Library.Sublist" "HOL-Library.Word"
begin

section \<open>The random file generator (\<^verbatim>\<open>random_file_gen.ts\<close>)\<close>

text \<open>
  A shallow embedding of the script \<^verbatim>\<open>.github/workflows/random_file_gen.ts\<close>.

  Modelling decisions:
  \<^item> A JavaScript number is a \<open>number\<close>: a finite value \<open>Num r\<close>, \<open>PInf\<close>
    (\<open>Infinity\<close>), \<open>NInf\<close> (\<open>-Infinity\<close>) or \<open>NaN\<close>, with the arithmetic and the
    comparisons of IEEE 754 on these four kinds. \<^verbatim>\<open>parseInt\<close> gives \<open>Infinity\<close> for a
    digit string at or beyond the largest double. Finite values are exact reals: the
    rounding of finite doubles (integers beyond \<open>2^53\<close>) is not modelled.
  \<^item> \<^verbatim>\<open>Math.random()\<close> is read from a sequence of reals, \<open>mathRandom\<close> at position
    \<open>rpos\<close>; the platform's promise \<open>0 \<le> r < 1\<close> is the predicate \<open>valid_random\<close>.
  \<^item> A loop whose bound is a number may run forever (a bound \<open>Infinity\<close>): the three
    counting loops are partial functions, and whatever calls them returns \<open>None\<close> when
    it never returns.
  \<^item> \<^verbatim>\<open>crypto.randomBytes\<close> is read from a sequence of bytes, \<open>entropy\<close> at position
    \<open>epos\<close>.
  \<^item> Strings are lists of 8-bit characters of any length (the length limit of an engine
    is not modelled); of the white space that \<^verbatim>\<open>parseInt\<close> skips, the characters below
    \<open>U+0100\<close> are modelled: the six ASCII ones and the no-break space.
  \<^item> An absolute, normalised POSIX path is the list of its segments; the functions of
    Node's \<^verbatim>\<open>path\<close> module are modelled on that representation.
  \<^item> The file system \<open>files\<close> maps paths to nodes; \<^verbatim>\<open>fs.mkdir\<close> (recursive) and
    \<^verbatim>\<open>fs.writeFile\<close> either update it or throw: a call on a path in \<open>denied\<close> is
    refused, a file in the way of a directory or a directory in the way of a file is an
    error. Every call is appended to \<open>calls\<close>.
  \<^item> \<^verbatim>\<open>process.exit\<close>, a thrown error and a normal return are the three constructors of
    \<open>outcome\<close>, each with the world it leaves; \<open>main\<close> returns the exit code.
\<close>

subsection \<open>Platform: paths, file system, process state\<close>

type_synonym path = "string list"

datatype node = Dir | File string

datatype syscall = Mkdir path | WriteFile path string

datatype fs_error = EACCES path | EEXIST path | ENOTDIR path | EISDIR path | ENOENT path

record world =
  cwd :: path
  mathRandom :: "nat \<Rightarrow> real"
  rpos :: nat
  entropy :: "nat \<Rightarrow> 8 word"
  epos :: nat
  files :: "path \<Rightarrow> node option"
  denied :: "path \<Rightarrow> bool"
  calls :: "syscall list"
  stdout :: "string list"
  stderr :: "fs_error list"

datatype 'a outcome = Exited int world | Thrown fs_error world | Returned 'a world

definition valid_random :: "world \<Rightarrow> bool" where
  "valid_random w = (\<forall>n. 0 \<le> mathRandom w n \<and> mathRandom w n < 1)"

definition Math_random :: "world \<Rightarrow> real \<times> world" where
  "Math_random w = (mathRandom w (rpos w), w\<lparr>rpos := Suc (rpos w)\<rparr>)"

definition randomBytes :: "nat \<Rightarrow> world \<Rightarrow> 8 word list \<times> world" where
  "randomBytes n w = (map (\<lambda>k. entropy w (epos w + k)) [0..<n], w\<lparr>epos := epos w + n\<rparr>)"

definition hexDigits :: string where
  "hexDigits = ''0123456789abcdef''"

definition toHex :: "8 word list \<Rightarrow> string" where
  "toHex bs = concat (map (\<lambda>b. [hexDigits ! (unat b div 16), hexDigits ! (unat b mod 16)]) bs)"

definition console_log :: "string \<Rightarrow> world \<Rightarrow> world" where
  "console_log s w = w\<lparr>stdout := stdout w @ [s]\<rparr>"

definition console_error :: "fs_error \<Rightarrow> world \<Rightarrow> world" where
  "console_error e w = w\<lparr>stderr := stderr w @ [e]\<rparr>"

fun splitSlash :: "string \<Rightarrow> string list" where
  "splitSlash [] = [[]]"
| "splitSlash (c # cs) =
     (if c = CHR ''/'' then [] # splitSlash cs
      else (case splitSlash cs of [] \<Rightarrow> [[c]] | s # ss \<Rightarrow> (c # s) # ss))"

definition normStep :: "path \<Rightarrow> string \<Rightarrow> path" where
  "normStep p s = (if s = [] \<or> s = ''.'' then p else if s = ''..'' then butlast p else p @ [s])"

definition path_resolve :: "path \<Rightarrow> string \<Rightarrow> path" where
  "path_resolve base s =
     foldl normStep (if s \<noteq> [] \<and> hd s = CHR ''/'' then [] else base) (splitSlash s)"

definition path_join :: "path \<Rightarrow> string list \<Rightarrow> path" where
  "path_join base parts = foldl normStep base (concat (map splitSlash parts))"

fun strip_common :: "path \<Rightarrow> path \<Rightarrow> path \<times> path" where
  "strip_common (a # as) (b # bs) = (if a = b then strip_common as bs else (a # as, b # bs))"
| "strip_common as bs = (as, bs)"

fun joinSlash :: "string list \<Rightarrow> string" where
  "joinSlash [] = []"
| "joinSlash [s] = s"
| "joinSlash (s # ss) = s @ ''/'' @ joinSlash ss"

definition path_relative :: "path \<Rightarrow> path \<Rightarrow> string" where
  "path_relative src dst =
     (let (ups, downs) = strip_common src dst
      in joinSlash (replicate (length ups) ''..'' @ downs))"

definition path_string :: "path \<Rightarrow> string" where
  "path_string p = (if p = [] then ''/'' else concat (map (\<lambda>s. CHR ''/'' # s) p))"

definition fs_mkdir :: "path \<Rightarrow> world \<Rightarrow> unit outcome" where
  "fs_mkdir p w =
     (let w' = w\<lparr>calls := calls w @ [Mkdir p]\<rparr> in
      if denied w p then Thrown (EACCES p) w'
      else (case find (\<lambda>q. case files w q of Some (File _) \<Rightarrow> True | _ \<Rightarrow> False) (prefixes p) of
              Some q \<Rightarrow> Thrown (if q = p then EEXIST p else ENOTDIR p) w'
            | None \<Rightarrow>
                Returned () (w'\<lparr>files := (\<lambda>q. if prefix q p then Some Dir else files w q)\<rparr>)))"

definition fs_writeFile :: "path \<Rightarrow> string \<Rightarrow> world \<Rightarrow> unit outcome" where
  "fs_writeFile p content w =
     (let w' = w\<lparr>calls := calls w @ [WriteFile p content]\<rparr> in
      if denied w p then Thrown (EACCES p) w'
      else if files w p = Some Dir then Thrown (EISDIR p) w'
      else if files w (butlast p) \<noteq> Some Dir then Thrown (ENOENT p) w'
      else Returned () (w'\<lparr>files := (files w)(p \<mapsto> File content)\<rparr>))"

subsection \<open>Platform: numbers and strings\<close>

definition isWhiteSpace :: "char \<Rightarrow> bool" where
  "isWhiteSpace c =
     (c \<in> set [CHR 0x09, CHR 0x0A, CHR 0x0B, CHR 0x0C, CHR 0x0D, CHR 0x20, CHR 0xA0])"

definition isDigit :: "char \<Rightarrow> bool" where
  "isDigit c = (c \<in> set ''0123456789'')"

definition digitVal :: "char \<Rightarrow> int" where
  "digitVal c = int (of_char c) - 48"

definition decimal :: "string \<Rightarrow> int" where
  "decimal ds = foldl (\<lambda>n c. 10 * n + digitVal c) 0 ds"

text \<open>JavaScript numbers: finite values, the two infinities and \<open>NaN\<close>.\<close>

datatype number = Num real | PInf | NInf | NaN

fun js_neg :: "number \<Rightarrow> number" where
  "js_neg (Num a) = Num (- a)"
| "js_neg PInf = NInf"
| "js_neg NInf = PInf"
| "js_neg NaN = NaN"

fun js_add :: "number \<Rightarrow> number \<Rightarrow> number" where
  "js_add NaN y = NaN"
| "js_add x NaN = NaN"
| "js_add (Num a) (Num b) = Num (a + b)"
| "js_add PInf NInf = NaN"
| "js_add NInf PInf = NaN"
| "js_add PInf y = PInf"
| "js_add x PInf = PInf"
| "js_add NInf y = NInf"
| "js_add x NInf = NInf"

definition js_sub :: "number \<Rightarrow> number \<Rightarrow> number" where
  "js_sub x y = js_add x (js_neg y)"

fun js_mul :: "number \<Rightarrow> number \<Rightarrow> number" where
  "js_mul NaN y = NaN"
| "js_mul x NaN = NaN"
| "js_mul (Num a) (Num b) = Num (a * b)"
| "js_mul (Num a) PInf = (if a = 0 then NaN else if 0 < a then PInf else NInf)"
| "js_mul (Num a) NInf = (if a = 0 then NaN else if 0 < a then NInf else PInf)"
| "js_mul PInf (Num b) = (if b = 0 then NaN else if 0 < b then PInf else NInf)"
| "js_mul NInf (Num b) = (if b = 0 then NaN else if 0 < b then NInf else PInf)"
| "js_mul PInf PInf = PInf"
| "js_mul PInf NInf = NInf"
| "js_mul NInf PInf = NInf"
| "js_mul NInf NInf = PInf"

text \<open>\<^verbatim>\<open>Math.floor\<close>.\<close>

fun js_floor :: "number \<Rightarrow> number" where
  "js_floor (Num a) = Num (of_int \<lfloor>a\<rfloor>)"
| "js_floor x = x"

text \<open>\<^verbatim>\<open>x < y\<close>: false as soon as one side is \<open>NaN\<close>.\<close>

fun js_less :: "number \<Rightarrow> number \<Rightarrow> bool" where
  "js_less (Num a) (Num b) = (a < b)"
| "js_less NaN y = False"
| "js_less x NaN = False"
| "js_less x NInf = False"
| "js_less NInf y = True"
| "js_less PInf y = False"
| "js_less x PInf = True"

text \<open>\<^verbatim>\<open>Math.max(x, y)\<close>: \<open>NaN\<close> as soon as one argument is \<open>NaN\<close>.\<close>

definition js_max :: "number \<Rightarrow> number \<Rightarrow> number" where
  "js_max x y = (if x = NaN \<or> y = NaN then NaN else if js_less x y then y else x)"

text \<open>An integer as a number: at or beyond \<open>2^1024 - 2^970\<close>, halfway between the largest
  double and \<open>2^1024\<close>, it rounds to an infinity.\<close>

definition toNumber :: "int \<Rightarrow> number" where
  "toNumber v =
     (if 2 ^ 1024 - 2 ^ 970 \<le> v then PInf
      else if v \<le> - (2 ^ 1024 - 2 ^ 970) then NInf
      else Num (of_int v))"

text \<open>\<^verbatim>\<open>parseInt(s, 10)\<close>: leading white space is skipped, one sign is read, then the
  longest run of decimal digits; no digit gives \<open>NaN\<close>.\<close>

definition parseInt :: "string \<Rightarrow> number" where
  "parseInt s =
     (let t = dropWhile isWhiteSpace s;
          sign = (if t \<noteq> [] \<and> hd t = CHR ''-'' then - 1 else 1);
          u = (if t \<noteq> [] \<and> (hd t = CHR ''+'' \<or> hd t = CHR ''-'') then tl t else t);
          z = takeWhile isDigit u
      in if z = [] then NaN else toNumber (sign * decimal z))"

text \<open>\<^verbatim>\<open>x || d\<close> on a number \<open>x\<close>: \<open>NaN\<close> and \<open>0\<close> are falsy.\<close>

definition or_else :: "number \<Rightarrow> number \<Rightarrow> number" where
  "or_else x d = (if x = NaN \<or> x = Num 0 then d else x)"

text \<open>\<^verbatim>\<open>argv[i]\<close> is \<open>undefined\<close> (\<open>None\<close>) out of range; \<open>undefined\<close> and the empty
  string are falsy.\<close>

definition argv_at :: "string list \<Rightarrow> nat \<Rightarrow> string option" where
  "argv_at argv i = (if i < length argv then Some (argv ! i) else None)"

definition truthy :: "string option \<Rightarrow> bool" where
  "truthy v = (case v of None \<Rightarrow> False | Some s \<Rightarrow> s \<noteq> [])"

fun digits :: "nat \<Rightarrow> string" where
  "digits n =
     (if n < 10 then [''0123456789'' ! n]
      else digits (n div 10) @ [''0123456789'' ! (n mod 10)])"

declare digits.simps [simp del]

definition intToString :: "int \<Rightarrow> string" where
  "intToString n = (if n < 0 then CHR ''-'' # digits (nat (- n)) else digits (nat n))"

text \<open>A number in a template string. The script prints integers only (the defaults and
  the length of a list), which are their decimal digits; the fraction of another finite
  value is not modelled.\<close>

definition numToString :: "number \<Rightarrow> string" where
  "numToString x =
     (case x of Num a \<Rightarrow> intToString \<lfloor>a\<rfloor> | PInf \<Rightarrow> ''Infinity'' | NInf \<Rightarrow> ''-Infinity''
      | NaN \<Rightarrow> ''NaN'')"

text \<open>\<^verbatim>\<open>s.charAt(k)\<close> is the empty string out of range.\<close>

definition charAt :: "string \<Rightarrow> int \<Rightarrow> string" where
  "charAt s k = (if 0 \<le> k \<and> k < int (length s) then [s ! nat k] else [])"

subsection \<open>Options and constants\<close>

record options =
  outDir :: path
  count :: number
  minLen :: number
  maxLen :: number
  maxDepth :: number

definition DEFAULTS :: "world \<Rightarrow> options" where
  "DEFAULTS w =
     \<lparr>outDir = path_resolve (cwd w) ''dist'', count = Num 20, minLen = Num 50,
      maxLen = Num 500, maxDepth = Num 3\<rparr>"

definition exts :: "string list" where
  "exts = [''.html'', ''.js'', ''.css'', ''.txt'']"

definition letters :: string where
  "letters = ''abcdefghijklmnopqrstuvwxyzABCDEFGHIJKLMNOPQRSTUVWXYZ''"

subsection \<open>Random helpers\<close>

definition rndInt :: "number \<Rightarrow> number \<Rightarrow> world \<Rightarrow> number \<times> world" where
  "rndInt lo hi w =
     (let (r, w') = Math_random w
      in (js_add (js_floor (js_mul (Num r) (js_add (js_sub hi lo) (Num 1)))) lo, w'))"

definition rndHex :: "nat \<Rightarrow> world \<Rightarrow> string \<times> world" where
  "rndHex len w =
     (let (bs, w') = randomBytes ((len + 1) div 2) w in (take len (toHex bs), w'))"

partial_function (option)
  rndString_loop :: "number \<Rightarrow> number \<Rightarrow> string \<Rightarrow> world \<Rightarrow> (string \<times> world) option"
where
  "rndString_loop i len out w =
     (if js_less i len then
        (let (r, w') = Math_random w
         in rndString_loop (js_add i (Num 1)) len
              (out @ charAt letters \<lfloor>r * of_nat (length letters)\<rfloor>) w')
      else Some (out, w))"

declare rndString_loop.simps [code]

definition rndString :: "number \<Rightarrow> world \<Rightarrow> (string \<times> world) option" where
  "rndString len w = rndString_loop (Num 0) len [] w"

text \<open>\<^verbatim>\<open>arr[k]\<close> is \<open>undefined\<close> (\<open>None\<close>) out of range.\<close>

definition pick :: "'a list \<Rightarrow> world \<Rightarrow> 'a option \<times> world" where
  "pick arr w =
     (let (r, w') = Math_random w;
          k = \<lfloor>r * of_nat (length arr)\<rfloor>
      in (if 0 \<le> k \<and> k < int (length arr) then Some (arr ! nat k) else None, w'))"

subsection \<open>The path generator\<close>

partial_function (option)
  parts_loop :: "number \<Rightarrow> number \<Rightarrow> string list \<Rightarrow> world \<Rightarrow> (string list \<times> world) option"
where
  "parts_loop i depth parts w =
     (if js_less i depth then
        (let (h, w') = rndHex 6 w in parts_loop (js_add i (Num 1)) depth (parts @ [h]) w')
      else Some (parts, w))"

declare parts_loop.simps [code]

definition makeRandomDir :: "path \<Rightarrow> number \<Rightarrow> world \<Rightarrow> path outcome option" where
  "makeRandomDir base maxD w =
     (let (depth, w1) = rndInt (Num 1) (js_max (Num 1) maxD) w
      in case parts_loop (Num 0) depth [] w1 of
           None \<Rightarrow> None
         | Some (parts, w2) \<Rightarrow>
             (let dir = path_join base parts
              in Some (case fs_mkdir dir w2 of
                         Exited c w3 \<Rightarrow> Exited c w3
                       | Thrown e w3 \<Rightarrow> Thrown e w3
                       | Returned u w3 \<Rightarrow> Returned dir w3)))"

subsection \<open>The file generator\<close>

text \<open>The local constants of \<^verbatim>\<open>makeRandomFile\<close> before the write: \<open>ext\<close>, \<open>name\<close>,
  \<open>len\<close>, \<open>content\<close> and \<open>finalContent\<close>.\<close>

record draft =
  d_ext :: "string option"
  d_name :: string
  d_len :: number
  d_content :: string
  d_final :: string

definition ext_text :: "string option \<Rightarrow> string" where
  "ext_text e = (case e of None \<Rightarrow> ''undefined'' | Some s \<Rightarrow> s)"

definition html_shell :: "string \<Rightarrow> string \<Rightarrow> string" where
  "html_shell title content =
     ''<!doctype html>\<newline><html>\<newline><head>\<newline>  <meta charset='' @ [CHR 0x22] @ ''utf-8''
     @ [CHR 0x22] @ ''>\<newline>  <title>'' @ title
     @ ''</title>\<newline></head>\<newline><body>\<newline>'' @ content
     @ ''\<newline></body>\<newline></html>\<newline>''"

definition js_shell :: "string \<Rightarrow> string \<Rightarrow> string" where
  "js_shell tag content =
     ''// '' @ tag @ ''\<newline>(function(){\<newline>  const s = '' @ [CHR 0x22] @ content
     @ [CHR 0x22] @ '';\<newline>  // random content\<newline>  return s.length;\<newline>})();\<newline>''"

definition css_shell :: "string \<Rightarrow> string \<Rightarrow> string" where
  "css_shell tag content =
     ''/* '' @ tag @ '' */\<newline>body::after { content: '' @ [CHR 0x22] @ take 30 content
     @ [CHR 0x22] @ ''; }\<newline>''"

definition draftFile :: "number \<Rightarrow> number \<Rightarrow> world \<Rightarrow> (draft \<times> world) option" where
  "draftFile lo hi w =
     (let (ext, w1) = pick exts w;
          (h, w2) = rndHex 8 w1;
          name = ''file_'' @ h @ ext_text ext;
          (len, w3) = rndInt lo hi w2
      in case rndString len w3 of
           None \<Rightarrow> None
         | Some (content, w4) \<Rightarrow>
             (let (finalContent, w5) =
                    (if ext = Some ''.html'' then
                       (let (t, w') = rndHex 6 w4 in (html_shell t content, w'))
                     else if ext = Some ''.js'' then
                       (let (t, w') = rndHex 6 w4 in (js_shell t content, w'))
                     else if ext = Some ''.css'' then
                       (let (t, w') = rndHex 6 w4 in (css_shell t content, w'))
                     else (content, w4))
              in Some (\<lparr>d_ext = ext, d_name = name, d_len = len, d_content = content,
                         d_final = finalContent\<rparr>, w5)))"

definition makeRandomFile :: "path \<Rightarrow> number \<Rightarrow> number \<Rightarrow> world \<Rightarrow> path outcome option" where
  "makeRandomFile dir lo hi w =
     (case draftFile lo hi w of
        None \<Rightarrow> None
      | Some (d, w1) \<Rightarrow>
          (let fullPath = path_join dir [d_name d]
           in Some (case fs_writeFile fullPath (d_final d) w1 of
                      Exited c w2 \<Rightarrow> Exited c w2
                    | Thrown e w2 \<Rightarrow> Thrown e w2
                    | Returned u w2 \<Rightarrow> Returned fullPath w2)))"

subsection \<open>The command line\<close>

definition usage :: "world \<Rightarrow> string" where
  "usage w =
     ''\<newline>Usage: ts-node make-random-files.ts [options]\<newline>\<newline>Options:\<newline>''
     @ ''  --count N     Number of files to create (default: ''
     @ numToString (count (DEFAULTS w)) @ '')\<newline>''
     @ ''  --min N       Minimum characters per file content (default: ''
     @ numToString (minLen (DEFAULTS w)) @ '')\<newline>''
     @ ''  --max N       Maximum characters per file content (default: ''
     @ numToString (maxLen (DEFAULTS w)) @ '')\<newline>''
     @ ''  --out DIR     Output base directory (default: ./dist)\<newline>''
     @ ''  --depth N     Max random directory depth (default: ''
     @ numToString (maxDepth (DEFAULTS w)) @ '')\<newline>''
     @ ''  --help, -h    Show this help\<newline>''"

function parse_loop :: "string list \<Rightarrow> nat \<Rightarrow> options \<Rightarrow> world \<Rightarrow> options outcome" where
  "parse_loop argv i opts w =
     (if i < length argv then
        (let a = argv ! i in
         if a = ''--count'' \<and> truthy (argv_at argv (i + 1)) then
           parse_loop argv (i + 2)
             (opts\<lparr>count := or_else (parseInt (argv ! (i + 1))) (count opts)\<rparr>) w
         else if a = ''--min'' \<and> truthy (argv_at argv (i + 1)) then
           parse_loop argv (i + 2)
             (opts\<lparr>minLen := or_else (parseInt (argv ! (i + 1))) (minLen opts)\<rparr>) w
         else if a = ''--max'' \<and> truthy (argv_at argv (i + 1)) then
           parse_loop argv (i + 2)
             (opts\<lparr>maxLen := or_else (parseInt (argv ! (i + 1))) (maxLen opts)\<rparr>) w
         else if a = ''--out'' \<and> truthy (argv_at argv (i + 1)) then
           parse_loop argv (i + 2)
             (opts\<lparr>outDir := path_resolve (cwd w) (argv ! (i + 1))\<rparr>) w
         else if a = ''--depth'' \<and> truthy (argv_at argv (i + 1)) then
           parse_loop argv (i + 2)
             (opts\<lparr>maxDepth := or_else (parseInt (argv ! (i + 1))) (maxDepth opts)\<rparr>) w
         else if a = ''--help'' \<or> a = ''-h'' then
           Exited 0 (console_log (usage w) w)
         else parse_loop argv (i + 1) opts w)
      else Returned opts w)"
  by pat_completeness auto
termination
  by (relation "measure (\<lambda>(argv, i, opts, w). length argv - i)") auto

declare parse_loop.simps [simp del]

definition sanity :: "options \<Rightarrow> options" where
  "sanity opts =
     (let o1 = (if js_less (minLen opts) (Num 0) then opts\<lparr>minLen := Num 0\<rparr> else opts)
      in if js_less (maxLen o1) (minLen o1) then o1\<lparr>maxLen := minLen o1\<rparr> else o1)"

subsection \<open>The orchestrator\<close>

partial_function (option)
  create_loop :: "number \<Rightarrow> options \<Rightarrow> path list \<Rightarrow> world \<Rightarrow> path list outcome option"
where
  "create_loop i opts created w =
     (if js_less i (count opts) then
        (case makeRandomDir (outDir opts) (maxDepth opts) w of
           None \<Rightarrow> None
         | Some (Exited c w1) \<Rightarrow> Some (Exited c w1)
         | Some (Thrown e w1) \<Rightarrow> Some (Thrown e w1)
         | Some (Returned dir w1) \<Rightarrow>
             (case makeRandomFile dir (minLen opts) (maxLen opts) w1 of
                None \<Rightarrow> None
              | Some (Exited c w2) \<Rightarrow> Some (Exited c w2)
              | Some (Thrown e w2) \<Rightarrow> Some (Thrown e w2)
              | Some (Returned file w2) \<Rightarrow>
                  create_loop (js_add i (Num 1)) opts (created @ [file]) w2))
      else Some (Returned created w))"

declare create_loop.simps [code]

definition report :: "options \<Rightarrow> path list \<Rightarrow> world \<Rightarrow> world" where
  "report opts created w =
     foldl (\<lambda>v f. console_log ('' - '' @ path_relative (cwd v) f) v)
       (console_log
          (''Created '' @ numToString (Num (of_nat (length created))) @ '' files under ''
           @ path_string (outDir opts)) w)
       created"

definition main_body :: "string list \<Rightarrow> world \<Rightarrow> unit outcome option" where
  "main_body argv w =
     (case parse_loop argv 0 (DEFAULTS w) w of
        Exited c w1 \<Rightarrow> Some (Exited c w1)
      | Thrown e w1 \<Rightarrow> Some (Thrown e w1)
      | Returned parsed w1 \<Rightarrow>
          (let opts = sanity parsed in
           case fs_mkdir (outDir opts) w1 of
             Exited c w2 \<Rightarrow> Some (Exited c w2)
           | Thrown e w2 \<Rightarrow> Some (Thrown e w2)
           | Returned u w2 \<Rightarrow>
               (case create_loop (Num 0) opts [] w2 of
                  None \<Rightarrow> None
                | Some (Exited c w3) \<Rightarrow> Some (Exited c w3)
                | Some (Thrown e w3) \<Rightarrow> Some (Thrown e w3)
                | Some (Returned created w3) \<Rightarrow> Some (Returned () (report opts created w3)))))"

text \<open>The top level: \<^verbatim>\<open>main().catch(...)\<close>. The result is the exit code and the final
  state of the world, or \<open>None\<close> when the run never ends.\<close>

definition main :: "string list \<Rightarrow> world \<Rightarrow> (int \<times> world) option" where
  "main argv w =
     (case main_body argv w of
        None \<Rightarrow> None
      | Some (Exited c w') \<Rightarrow> Some (c, w')
      | Some (Thrown e w') \<Rightarrow> Some (1, console_error e w')
      | Some (Returned u w') \<Rightarrow> Some (0, w'))"

subsection \<open>Auxiliary definitions for the statements\<close>

definition numeric_flags :: "string list" where
  "numeric_flags = [''--count'', ''--min'', ''--max'', ''--depth'']"

definition value_flags :: "string list" where
  "value_flags = [''--count'', ''--min'', ''--max'', ''--out'', ''--depth'']"

definition all_flags :: "string list" where
  "all_flags = value_flags @ [''--help'', ''-h'']"

text \<open>The tokens that the argument loop reads as \<open>a\<close> when it runs to the end: a token
  taken as the value of the flag before it is skipped.\<close>

fun flag_tokens :: "string list \<Rightarrow> string list" where
  "flag_tokens (a # v # rest) =
     (if a \<in> set value_flags \<and> v \<noteq> [] then a # flag_tokens rest
      else a # flag_tokens (v # rest))"
| "flag_tokens [a] = [a]"
| "flag_tokens [] = []"

text \<open>The argument loop as a recursion on the tokens that remain; \<open>parse_loop_list\<close>
  below proves that it computes what \<open>parse_loop\<close> computes.\<close>

fun parse_list :: "string list \<Rightarrow> options \<Rightarrow> world \<Rightarrow> options outcome" where
  "parse_list [] opts w = Returned opts w"
| "parse_list (a # rest) opts w =
     (if a \<in> set value_flags \<and> rest \<noteq> [] \<and> hd rest \<noteq> [] then
        parse_list (tl rest)
          (if a = ''--count'' then opts\<lparr>count := or_else (parseInt (hd rest)) (count opts)\<rparr>
           else if a = ''--min'' then opts\<lparr>minLen := or_else (parseInt (hd rest)) (minLen opts)\<rparr>
           else if a = ''--max'' then opts\<lparr>maxLen := or_else (parseInt (hd rest)) (maxLen opts)\<rparr>
           else if a = ''--out'' then opts\<lparr>outDir := path_resolve (cwd w) (hd rest)\<rparr>
           else opts\<lparr>maxDepth := or_else (parseInt (hd rest)) (maxDepth opts)\<rparr>) w
      else if a = ''--help'' \<or> a = ''-h'' then Exited 0 (console_log (usage w) w)
      else parse_list rest opts w)"

text \<open>A concrete world: working directory \<^verbatim>\<open>/work\<close> on an otherwise empty file system,
  \<^verbatim>\<open>Math.random()\<close> always \<open>1/2\<close>, every random byte \<open>0xAB\<close>.\<close>

definition sample_world :: world where
  "sample_world =
     \<lparr>cwd = [''work''], mathRandom = (\<lambda>n. 1 / 2), rpos = 0, entropy = (\<lambda>n. 0xAB), epos = 0,
      files = (\<lambda>p. if prefix p [''work''] then Some Dir else None), denied = (\<lambda>p. False),
      calls = [], stdout = [], stderr = []\<rparr>"


text \<open>Reading an outcome: the value of a normal return, and the world it leaves.\<close>

fun returned :: "'a outcome \<Rightarrow> 'a option" where
  "returned (Returned x w) = Some x"
| "returned (Exited c w) = None"
| "returned (Thrown e w) = None"

fun world_of :: "'a outcome \<Rightarrow> world" where
  "world_of (Returned x w) = w"
| "world_of (Exited c w) = w"
| "world_of (Thrown e w) = w"

text \<open>Strings of hexadecimal digits, and path segments that \<^verbatim>\<open>path.join\<close> appends
  as they are.\<close>

definition is_hex :: "string \<Rightarrow> bool" where
  "is_hex s = (set s \<subseteq> set hexDigits)"

definition plain_segment :: "string \<Rightarrow> bool" where
  "plain_segment s = (CHR ''/'' \<notin> set s \<and> s \<noteq> [] \<and> s \<noteq> ''.'' \<and> s \<noteq> ''..'')"

text \<open>The sample world with another constant for \<^verbatim>\<open>Math.random()\<close>.\<close>

definition constant_world :: "real \<Rightarrow> world" where
  "constant_world r = sample_world\<lparr>mathRandom := (\<lambda>n. r)\<rparr>"

text \<open>A world in which the generator cannot fail below \<open>base\<close>: no path is refused, every
  directory lies on the way to \<open>base\<close> or has a name of six characters below it, and every
  file lies below \<open>base\<close> under a longer name.\<close>

definition clean :: "path \<Rightarrow> world \<Rightarrow> bool" where
  "clean base w =
     ((\<forall>p. \<not> denied w p)
      \<and> (\<forall>q. files w q = Some Dir \<longrightarrow> prefix q base \<or> (prefix base q \<and> length (last q) = 6))
      \<and> (\<forall>q c. files w q = Some (File c) \<longrightarrow> strict_prefix base q \<and> 6 < length (last q)))"

text \<open>\<^verbatim>\<open>x <= y\<close>, for the statements about ranges.\<close>

definition js_le :: "number \<Rightarrow> number \<Rightarrow> bool" where
  "js_le x y = (x \<noteq> NaN \<and> (js_less x y \<or> x = y))"

text \<open>The rounds of \<^verbatim>\<open>for (let i = 0; i < n; i++)\<close> when the loop ends.\<close>

fun rounds :: "number \<Rightarrow> nat" where
  "rounds (Num c) = nat \<lceil>c\<rceil>"
| "rounds x = 0"

text \<open>Numbers that the argument loop can store: integers and the two infinities.\<close>

definition parsed_number :: "number \<Rightarrow> bool" where
  "parsed_number x = (x = PInf \<or> x = NInf \<or> (\<exists>k::int. x = Num (of_int k)))"

definition parsed_options :: "options \<Rightarrow> bool" where
  "parsed_options opts =
     (parsed_number (count opts) \<and> parsed_number (minLen opts) \<and> parsed_number (maxLen opts)
      \<and> parsed_number (maxDepth opts))"

definition finite_number :: "number \<Rightarrow> bool" where
  "finite_number x = (case x of Num a \<Rightarrow> True | _ \<Rightarrow> False)"

definition finite_options :: "options \<Rightarrow> bool" where
  "finite_options opts =
     (finite_number (count opts) \<and> finite_number (minLen opts) \<and> finite_number (maxLen opts)
      \<and> finite_number (maxDepth opts))"

text \<open>What a call leaves as it was: the process environment and the output (everything
  but the file system and the positions in the random sources), and the file system.\<close>

definition same_env :: "world \<Rightarrow> world \<Rightarrow> bool" where
  "same_env w w' =
     (cwd w' = cwd w \<and> mathRandom w' = mathRandom w \<and> denied w' = denied w
      \<and> stdout w' = stdout w \<and> stderr w' = stderr w)"

definition same_fs :: "world \<Rightarrow> world \<Rightarrow> bool" where
  "same_fs w w' = (files w' = files w \<and> calls w' = calls w)"

section \<open>Lemmas\<close>

subsection \<open>Outcomes\<close>

lemma returned_Some: "returned r = Some x \<Longrightarrow> r = Returned x (world_of r)"
  by (cases r) simp_all

subsection \<open>Parsing numbers\<close>

lemma parseInt_flags:
  "parseInt ''--count'' = NaN" "parseInt ''--min'' = NaN" "parseInt ''--max'' = NaN"
  "parseInt ''--out'' = NaN" "parseInt ''--depth'' = NaN" "parseInt ''--help'' = NaN"
  "parseInt ''-h'' = NaN"
  by (simp_all add: parseInt_def isWhiteSpace_def isDigit_def)

lemma parseInt_examples:
  "parseInt ''abc'' = NaN" "parseInt ''x7'' = NaN" "parseInt ''0'' = Num 0"
  "parseInt ''1'' = Num 1" "parseInt ''2'' = Num 2" "parseInt ''3'' = Num 3"
  "parseInt ''5'' = Num 5" "parseInt ''-3'' = Num (- 3)"
  "parseInt ''-5'' = Num (- 5)" "parseInt ''-10'' = Num (- 10)"
  by (simp_all add: parseInt_def isWhiteSpace_def isDigit_def decimal_def digitVal_def
      toNumber_def)

subsection \<open>The argument loop\<close>

lemma parse_loop_stop: "\<not> i < length argv \<Longrightarrow> parse_loop argv i opts w = Returned opts w"
  by (subst parse_loop.simps) simp

lemma truthy_next:
  "truthy (argv_at argv (Suc i)) = (Suc i < length argv \<and> argv ! Suc i \<noteq> [])"
  by (simp add: truthy_def argv_at_def)

lemma parse_loop_list: "parse_loop argv i opts w = parse_list (drop i argv) opts w"
proof (induction argv i opts w rule: parse_loop.induct)
  case (1 argv i opts w)
  show ?case
  proof (cases "i < length argv")
    case False
    then show ?thesis by (simp add: parse_loop_stop)
  next
    case True
    then have d: "drop i argv = argv ! i # drop (Suc i) argv"
      by (simp add: Cons_nth_drop_Suc)
    have hd_tl: "Suc i < length argv \<Longrightarrow>
        hd (drop (Suc i) argv) = argv ! Suc i \<and> tl (drop (Suc i) argv) = drop (i + 2) argv"
      using Cons_nth_drop_Suc[of "Suc i" argv, symmetric] by simp
    have ne: "(drop (Suc i) argv \<noteq> []) = (Suc i < length argv)" by auto
    let ?a = "argv ! i"
    let ?t = "Suc i < length argv \<and> argv ! Suc i \<noteq> []"
    consider (c) "?a = ''--count''" "?t" | (mi) "?a = ''--min''" "?t" | (ma) "?a = ''--max''" "?t"
      | (ou) "?a = ''--out''" "?t" | (de) "?a = ''--depth''" "?t"
      | (he) "\<not> (?a \<in> set value_flags \<and> ?t)" "?a = ''--help'' \<or> ?a = ''-h''"
      | (ot) "\<not> (?a \<in> set value_flags \<and> ?t)" "\<not> (?a = ''--help'' \<or> ?a = ''-h'')"
      by (auto simp: value_flags_def)
    then show ?thesis
    proof cases
      case c
      have "parse_loop argv i opts w = parse_loop argv (i + 2)
             (opts\<lparr>count := or_else (parseInt (argv ! (i + 1))) (count opts)\<rparr>) w"
        using True c by (subst parse_loop.simps) (simp add: truthy_next Let_def)
      also have "\<dots> = parse_list (drop (i + 2) argv)
             (opts\<lparr>count := or_else (parseInt (argv ! (i + 1))) (count opts)\<rparr>) w"
        using True c by (intro "1.IH"(1)) (simp_all add: truthy_next Let_def)
      finally show ?thesis using c hd_tl by (simp add: d ne value_flags_def)
    next
      case mi
      have "parse_loop argv i opts w = parse_loop argv (i + 2)
             (opts\<lparr>minLen := or_else (parseInt (argv ! (i + 1))) (minLen opts)\<rparr>) w"
        using True mi by (subst parse_loop.simps) (simp add: truthy_next Let_def)
      also have "\<dots> = parse_list (drop (i + 2) argv)
             (opts\<lparr>minLen := or_else (parseInt (argv ! (i + 1))) (minLen opts)\<rparr>) w"
        using True mi by (intro "1.IH"(2)) (simp_all add: truthy_next Let_def)
      finally show ?thesis using mi hd_tl by (simp add: d ne value_flags_def)
    next
      case ma
      have "parse_loop argv i opts w = parse_loop argv (i + 2)
             (opts\<lparr>maxLen := or_else (parseInt (argv ! (i + 1))) (maxLen opts)\<rparr>) w"
        using True ma by (subst parse_loop.simps) (simp add: truthy_next Let_def)
      also have "\<dots> = parse_list (drop (i + 2) argv)
             (opts\<lparr>maxLen := or_else (parseInt (argv ! (i + 1))) (maxLen opts)\<rparr>) w"
        using True ma by (intro "1.IH"(3)) (simp_all add: truthy_next Let_def)
      finally show ?thesis using ma hd_tl by (simp add: d ne value_flags_def)
    next
      case ou
      have "parse_loop argv i opts w = parse_loop argv (i + 2)
             (opts\<lparr>outDir := path_resolve (cwd w) (argv ! (i + 1))\<rparr>) w"
        using True ou by (subst parse_loop.simps) (simp add: truthy_next Let_def)
      also have "\<dots> = parse_list (drop (i + 2) argv)
             (opts\<lparr>outDir := path_resolve (cwd w) (argv ! (i + 1))\<rparr>) w"
        using True ou by (intro "1.IH"(4)) (simp_all add: truthy_next Let_def)
      finally show ?thesis using ou hd_tl by (simp add: d ne value_flags_def)
    next
      case de
      have "parse_loop argv i opts w = parse_loop argv (i + 2)
             (opts\<lparr>maxDepth := or_else (parseInt (argv ! (i + 1))) (maxDepth opts)\<rparr>) w"
        using True de by (subst parse_loop.simps) (simp add: truthy_next Let_def)
      also have "\<dots> = parse_list (drop (i + 2) argv)
             (opts\<lparr>maxDepth := or_else (parseInt (argv ! (i + 1))) (maxDepth opts)\<rparr>) w"
        using True de by (intro "1.IH"(5)) (simp_all add: truthy_next Let_def)
      finally show ?thesis using de hd_tl by (simp add: d ne value_flags_def)
    next
      case he
      have "parse_loop argv i opts w = Exited 0 (console_log (usage w) w)"
        using True he by (subst parse_loop.simps) (auto simp: truthy_next value_flags_def Let_def)
      then show ?thesis using he hd_tl by (auto simp: d ne)
    next
      case ot
      have "parse_loop argv i opts w = parse_loop argv (i + 1) opts w"
        using True ot by (subst parse_loop.simps) (auto simp: truthy_next value_flags_def Let_def)
      also have "\<dots> = parse_list (drop (i + 1) argv) opts w"
        using True ot by (intro "1.IH"(6)) (auto simp: truthy_next value_flags_def Let_def)
      finally show ?thesis using ot hd_tl by (auto simp: d ne)
    qed
  qed
qed

lemma parse_loop_all: "parse_loop argv 0 opts w = parse_list argv opts w"
  by (simp add: parse_loop_list)

lemma numeric_flag_step:
  assumes "i + 1 < length argv"
    and "argv ! i \<in> set numeric_flags"
    and "\<And>d. or_else (parseInt (argv ! (i + 1))) d = d"
  shows "parse_loop argv i opts w = parse_loop argv (i + 2) opts w"
proof (cases "argv ! (i + 1) = []")
  case True
  have "parse_loop argv i opts w = parse_loop argv (i + 1) opts w"
    using assms(1,2) True
    by (subst parse_loop.simps) (auto simp: argv_at_def truthy_def numeric_flags_def)
  also have "\<dots> = parse_loop argv (i + 2) opts w"
    using assms(1) True by (subst parse_loop.simps) (simp add: argv_at_def truthy_def)
  finally show ?thesis .
next
  case False
  then show ?thesis
    using assms
    by (subst parse_loop.simps) (auto simp: argv_at_def truthy_def numeric_flags_def)
qed

lemma parse_list_minLen_nonzero:
  "parse_list args opts w = Returned opts' w' \<Longrightarrow> minLen opts \<noteq> Num 0
   \<Longrightarrow> minLen opts' \<noteq> Num 0"
  by (induction args opts w rule: parse_list.induct)
     (auto simp: or_else_def split: if_splits option.splits)

lemma parse_list_world:
  "parse_list args opts w = Returned parsed w' \<Longrightarrow> w' = w"
  by (induction args opts w rule: parse_list.induct) (auto split: if_splits)

subsection \<open>The help flag\<close>

lemma help_not_value_flag: "''--help'' \<notin> set value_flags" "''-h'' \<notin> set value_flags"
  by (simp_all add: value_flags_def)

lemma parse_list_help:
  "''--help'' \<in> set (flag_tokens args) \<or> ''-h'' \<in> set (flag_tokens args)
   \<Longrightarrow> parse_list args opts w = Exited 0 (console_log (usage w) w)"
proof (induction args arbitrary: opts rule: flag_tokens.induct)
  case (1 a v rest)
  show ?case
  proof (cases "a \<in> set value_flags \<and> v \<noteq> []")
    case True
    with "1.prems" help_not_value_flag
    have "''--help'' \<in> set (flag_tokens rest) \<or> ''-h'' \<in> set (flag_tokens rest)"
      by auto
    from "1.IH"(1)[OF True this] True show ?thesis by simp
  next
    case False
    show ?thesis
    proof (cases "a = ''--help'' \<or> a = ''-h''")
      case True
      with False show ?thesis by auto
    next
      case nh: False
      with "1.prems" False
      have "''--help'' \<in> set (flag_tokens (v # rest)) \<or> ''-h'' \<in> set (flag_tokens (v # rest))"
        by auto
      from "1.IH"(2)[OF False this] False nh show ?thesis by auto
    qed
  qed
next
  case (2 a)
  then show ?case by (auto simp: help_not_value_flag)
next
  case 3
  then show ?case by simp
qed

lemma flag_tokens_first: "a \<in> set (flag_tokens (a # rest))"
  by (cases rest) simp_all

lemma flag_tokens_nth:
  "j < length args \<Longrightarrow> j = 0 \<or> args ! (j - 1) \<notin> set value_flags
   \<Longrightarrow> args ! j \<in> set (flag_tokens args)"
proof (induction args arbitrary: j rule: flag_tokens.induct)
  case (1 a v rest)
  show ?case
  proof (cases j)
    case 0
    then show ?thesis by simp
  next
    case (Suc k)
    note j = Suc
    show ?thesis
    proof (cases k)
      case 0
      with j "1.prems" flag_tokens_first[of v rest] show ?thesis by simp
    next
      case (Suc m)
      with j "1.prems" "1.IH"(1)[of m] "1.IH"(2)[of k] show ?thesis
        by (cases m) auto
    qed
  qed
qed simp_all

lemma main_help:
  assumes "''--help'' \<in> set (flag_tokens argv) \<or> ''-h'' \<in> set (flag_tokens argv)"
  shows "main argv w = Some (0, console_log (usage w) w)"
  using parse_list_help[OF assms, of "DEFAULTS w" w]
  by (simp add: main_def main_body_def parse_loop_all)

subsection \<open>Numbers\<close>

lemma decimal_nines:
  "foldl (\<lambda>n c. 10 * n + digitVal c) a (replicate k (CHR ''9'')) = (a + 1) * 10 ^ k - 1"
  by (induction k arbitrary: a) (simp_all add: digitVal_def algebra_simps)

lemma parseInt_nines:
  assumes "0 < k"
  shows "parseInt (replicate k (CHR ''9'')) = toNumber (10 ^ k - 1)"
    and "parseInt (CHR ''-'' # replicate k (CHR ''9'')) = toNumber (- (10 ^ k - 1))"
  using assms
  by (simp_all add: parseInt_def Let_def dropWhile_replicate takeWhile_replicate isWhiteSpace_def
      isDigit_def decimal_def decimal_nines)

lemma parseInt_400_nines: "parseInt (replicate 400 (CHR ''9'')) = PInf"
  by (simp add: parseInt_nines toNumber_def)

lemma toNumber_parsed: "parsed_number (toNumber v)"
  by (simp add: toNumber_def parsed_number_def)

lemma parseInt_parsed: "parseInt s = NaN \<or> parsed_number (parseInt s)"
  by (simp add: parseInt_def Let_def toNumber_parsed)

lemma or_else_parsed: "parsed_number d \<Longrightarrow> parsed_number (or_else (parseInt s) d)"
  using parseInt_parsed[of s] by (auto simp: or_else_def)

lemma js_sub_Num: "js_sub (Num c) (Num a) = Num (c - a)"
  by (simp add: js_sub_def)

lemma same_env_refl: "same_env w w"
  by (simp add: same_env_def)

lemma same_env_trans: "same_env w v \<Longrightarrow> same_env v u \<Longrightarrow> same_env w u"
  by (simp add: same_env_def)

lemma same_fs_refl: "same_fs w w"
  by (simp add: same_fs_def)

lemma same_fs_trans: "same_fs w v \<Longrightarrow> same_fs v u \<Longrightarrow> same_fs w u"
  by (simp add: same_fs_def)

lemma valid_random_same: "same_env w w' \<Longrightarrow> valid_random w' = valid_random w"
  by (simp add: same_env_def valid_random_def)

subsection \<open>Random numbers and strings\<close>

lemma Math_random_range:
  "valid_random w \<Longrightarrow> 0 \<le> fst (Math_random w) \<and> fst (Math_random w) < 1"
  by (simp add: valid_random_def Math_random_def)

lemma Math_random_same: "same_env w (snd (Math_random w))" "same_fs w (snd (Math_random w))"
  by (simp_all add: Math_random_def same_env_def same_fs_def)

lemma floor_scaled_range:
  fixes r :: real and n :: int
  assumes "0 \<le> r" "r < 1" "0 < n"
  shows "0 \<le> \<lfloor>r * of_int n\<rfloor> \<and> \<lfloor>r * of_int n\<rfloor> < n"
proof -
  have "0 \<le> r * of_int n" using assms by simp
  moreover have "r * of_int n < of_int n" using assms by simp
  ultimately show ?thesis by (simp add: floor_less_iff)
qed

lemma rndInt_world: "snd (rndInt lo hi w) = snd (Math_random w)"
  by (simp add: rndInt_def split_def Let_def)

lemma rndInt_same: "same_env w (snd (rndInt lo hi w))" "same_fs w (snd (rndInt lo hi w))"
  by (simp_all add: rndInt_world Math_random_same)

lemma rndInt_Num:
  "fst (rndInt (Num a) (Num b) w) = Num (of_int \<lfloor>fst (Math_random w) * (b - a + 1)\<rfloor> + a)"
  by (simp add: rndInt_def split_def Let_def js_sub_def)

lemma rndInt_range:
  assumes "valid_random w" "a \<le> b"
  shows "\<exists>n. fst (rndInt (Num (of_int a)) (Num (of_int b)) w) = Num (of_int n) \<and> a \<le> n \<and> n \<le> b"
proof -
  let ?k = "\<lfloor>fst (Math_random w) * of_int (b - a + 1)\<rfloor>"
  have "0 \<le> ?k \<and> ?k < b - a + 1"
    using Math_random_range[OF assms(1)] assms(2) by (intro floor_scaled_range) auto
  moreover have "fst (rndInt (Num (of_int a)) (Num (of_int b)) w) = Num (of_int (?k + a))"
    by (simp add: rndInt_Num)
  ultimately show ?thesis by (intro exI[of _ "?k + a"]) simp
qed

lemma charAt_letters: "set (charAt letters k) \<subseteq> set letters"
  by (auto simp: charAt_def)

lemma charAt_length: "0 \<le> k \<Longrightarrow> k < int (length s) \<Longrightarrow> length (charAt s k) = 1"
  by (simp add: charAt_def)

lemma nth_nat_mem: "0 \<le> k \<Longrightarrow> k < int (length xs) \<Longrightarrow> xs ! nat k \<in> set xs"
  by (simp add: nat_less_iff)

text \<open>Whatever the bound, a string loop that ends has appended letters only.\<close>

lemma rndString_loop_partial:
  assumes "rndString_loop i len out w = Some y"
  shows "(set out \<subseteq> set letters \<longrightarrow> set (fst y) \<subseteq> set letters)
         \<and> same_env w (snd y) \<and> same_fs w (snd y)"
  using assms
proof (induction i len out w y
    rule: rndString_loop.raw_induct[rotated 1, consumes 1, case_names step])
  case (step f i len out w y)
  show ?case
  proof (cases "js_less i len")
    case False
    with step.hyps show ?thesis by (auto simp: same_env_refl same_fs_refl)
  next
    case True
    let ?r = "fst (Math_random w)" and ?w' = "snd (Math_random w)"
    let ?out = "out @ charAt letters \<lfloor>?r * of_nat (length letters)\<rfloor>"
    from True step.hyps have "f (js_add i (Num 1)) len ?out ?w' = Some y"
      by (simp add: split_def Let_def)
    from step.IH[OF this] charAt_letters
    have "(set out \<subseteq> set letters \<longrightarrow> set (fst y) \<subseteq> set letters)
          \<and> same_env ?w' (snd y) \<and> same_fs ?w' (snd y)"
      by auto
    with Math_random_same[of w] show ?thesis
      by (blast intro: same_env_trans same_fs_trans)
  qed
qed

text \<open>For a finite bound the string loop ends, after the rounds that are left.\<close>

lemma rndString_loop_finite:
  "\<exists>s w'. rndString_loop (Num a) (Num b) out w = Some (s, w')
           \<and> (valid_random w \<longrightarrow> length s = length out + nat \<lceil>b - a\<rceil>)"
proof (induction "nat \<lceil>b - a\<rceil>" arbitrary: a out w)
  case 0
  then have "\<not> a < b" by linarith
  with 0 show ?case by (subst rndString_loop.simps) simp
next
  case (Suc n)
  then have lt: "a < b" by linarith
  have n: "n = nat \<lceil>b - (a + 1)\<rceil>" using Suc(2) by linarith
  let ?r = "fst (Math_random w)" and ?w' = "snd (Math_random w)"
  let ?c = "charAt letters \<lfloor>?r * of_nat (length letters)\<rfloor>"
  from Suc(1)[OF n, of "out @ ?c" ?w'] obtain s w' where
    s: "rndString_loop (Num (a + 1)) (Num b) (out @ ?c) ?w' = Some (s, w')"
      "valid_random ?w' \<longrightarrow> length s = length (out @ ?c) + nat \<lceil>b - (a + 1)\<rceil>"
    by blast
  have "rndString_loop (Num a) (Num b) out w = Some (s, w')"
    using lt s(1) by (subst rndString_loop.simps) (simp add: split_def Let_def)
  moreover have "length s = length out + nat \<lceil>b - a\<rceil>" if v: "valid_random w"
  proof -
    have v': "valid_random ?w'"
      using v valid_random_same[OF Math_random_same(1)] by simp
    have r: "0 \<le> ?r \<and> ?r < 1" using Math_random_range[OF v] .
    have "0 \<le> \<lfloor>?r * of_int (int (length letters))\<rfloor>
        \<and> \<lfloor>?r * of_int (int (length letters))\<rfloor> < int (length letters)"
      using r by (intro floor_scaled_range) (simp_all add: letters_def)
    then have one: "length ?c = 1"
      by (intro charAt_length) simp_all
    show ?thesis using s(2) v' one n Suc(2) by simp
  qed
  ultimately show ?case by blast
qed

lemma rndString_loop_stop: "\<not> js_less i len \<Longrightarrow> rndString_loop i len out w = Some (out, w)"
  by (subst rndString_loop.simps) simp

lemma rndString_partial:
  assumes "rndString len w = Some (s, w')"
  shows "set s \<subseteq> set letters" "same_env w w'" "same_fs w w'"
  using rndString_loop_partial[of "Num 0" len "[]" w "(s, w')"] assms
  by (simp_all add: rndString_def)

lemma rndString_finite:
  "\<exists>s w'. rndString (Num c) w = Some (s, w') \<and> (valid_random w \<longrightarrow> length s = nat \<lceil>c\<rceil>)"
  using rndString_loop_finite[of 0 c "[]" w] by (simp add: rndString_def)

lemma rndString_NaN: "rndString NaN w = Some ([], w)"
  by (simp add: rndString_def rndString_loop_stop)

subsection \<open>Hexadecimal tokens\<close>

lemma hexDigits_length: "length hexDigits = 16"
  by (simp add: hexDigits_def)

lemma hexDigits_nth: "k < 16 \<Longrightarrow> hexDigits ! k \<in> set hexDigits"
  by (simp add: hexDigits_length)

lemma toHex_length: "length (toHex bs) = 2 * length bs"
  by (induction bs) (simp_all add: toHex_def)

lemma toHex_hex: "set (toHex bs) \<subseteq> set hexDigits"
proof -
  have "unat b div 16 < 16" for b :: "8 word"
    using unsigned_less[of b, where 'a = nat] by simp
  then show ?thesis
    by (auto simp: toHex_def intro!: hexDigits_nth)
qed

lemma rndHex_length: "length (fst (rndHex len w)) = len"
  by (simp add: rndHex_def randomBytes_def split_def Let_def toHex_length)

lemma rndHex_hex: "is_hex (fst (rndHex len w))"
  using toHex_hex set_take_subset
  by (fastforce simp: is_hex_def rndHex_def randomBytes_def split_def Let_def)

lemma rndHex_same: "same_env w (snd (rndHex len w))" "same_fs w (snd (rndHex len w))"
  by (simp_all add: rndHex_def randomBytes_def split_def Let_def same_env_def same_fs_def)

lemma pick_same: "same_env w (snd (pick arr w))" "same_fs w (snd (pick arr w))"
  using Math_random_same[of w] by (simp_all add: pick_def split_def Let_def)

text \<open>Whatever the bound, a segment loop that ends has appended tokens of six
  hexadecimal digits.\<close>

lemma parts_loop_partial:
  assumes "parts_loop i depth parts w = Some y"
  shows "\<exists>new. fst y = parts @ new \<and> (\<forall>h \<in> set new. length h = 6 \<and> is_hex h)
           \<and> same_env w (snd y) \<and> same_fs w (snd y)"
  using assms
proof (induction i depth parts w y
    rule: parts_loop.raw_induct[rotated 1, consumes 1, case_names step])
  case (step f i depth parts w y)
  show ?case
  proof (cases "js_less i depth")
    case False
    with step.hyps show ?thesis by (auto simp: same_env_refl same_fs_refl)
  next
    case True
    let ?h = "fst (rndHex 6 w)" and ?w' = "snd (rndHex 6 w)"
    from True step.hyps have "f (js_add i (Num 1)) depth (parts @ [?h]) ?w' = Some y"
      by (simp add: split_def Let_def)
    from step.IH[OF this] obtain new where
      new: "fst y = (parts @ [?h]) @ new" "\<forall>h \<in> set new. length h = 6 \<and> is_hex h"
        "same_env ?w' (snd y)" "same_fs ?w' (snd y)"
      by blast
    have "fst y = parts @ (?h # new)" using new(1) by simp
    moreover have "\<forall>h \<in> set (?h # new). length h = 6 \<and> is_hex h"
      using new(2) rndHex_length[of 6 w] rndHex_hex[of 6 w] by simp
    moreover have "same_env w (snd y)" "same_fs w (snd y)"
      using new(3,4) rndHex_same[of w 6] by (blast intro: same_env_trans same_fs_trans)+
    ultimately show ?thesis by blast
  qed
qed

text \<open>For a finite bound the segment loop ends, after the rounds that are left.\<close>

lemma parts_loop_finite:
  "\<exists>ps w'. parts_loop (Num a) (Num b) parts w = Some (ps, w')
           \<and> length ps = length parts + nat \<lceil>b - a\<rceil>"
proof (induction "nat \<lceil>b - a\<rceil>" arbitrary: a parts w)
  case 0
  then have "\<not> a < b" by linarith
  with 0 show ?case by (subst parts_loop.simps) simp
next
  case (Suc n)
  then have lt: "a < b" by linarith
  have n: "n = nat \<lceil>b - (a + 1)\<rceil>" using Suc(2) by linarith
  let ?h = "fst (rndHex 6 w)" and ?w' = "snd (rndHex 6 w)"
  from Suc(1)[OF n, of "parts @ [?h]" ?w'] obtain ps w' where
    s: "parts_loop (Num (a + 1)) (Num b) (parts @ [?h]) ?w' = Some (ps, w')"
      "length ps = length (parts @ [?h]) + nat \<lceil>b - (a + 1)\<rceil>"
    by blast
  have "parts_loop (Num a) (Num b) parts w = Some (ps, w')"
    using lt s(1) by (subst parts_loop.simps) (simp add: split_def Let_def)
  moreover have "length ps = length parts + nat \<lceil>b - a\<rceil>"
    using s(2) n Suc(2) by simp
  ultimately show ?case by blast
qed

lemma parts_loop_stop: "\<not> js_less i depth \<Longrightarrow> parts_loop i depth parts w = Some (parts, w)"
  by (subst parts_loop.simps) simp

subsection \<open>Joining path segments\<close>

lemma splitSlash_plain: "CHR ''/'' \<notin> set s \<Longrightarrow> splitSlash s = [s]"
  by (induction s) auto

lemma normStep_plain: "s \<noteq> [] \<Longrightarrow> s \<noteq> ''.'' \<Longrightarrow> s \<noteq> ''..'' \<Longrightarrow> normStep p s = p @ [s]"
  by (simp add: normStep_def)

lemma path_join_plain:
  "\<forall>s \<in> set parts. plain_segment s \<Longrightarrow> path_join base parts = base @ parts"
proof (induction parts arbitrary: base)
  case Nil
  then show ?case by (simp add: path_join_def)
next
  case (Cons s parts)
  then have "path_join (base @ [s]) parts = (base @ [s]) @ parts" by simp
  moreover have "path_join base (s # parts) = path_join (base @ [s]) parts"
    using Cons.prems by (simp add: path_join_def plain_segment_def splitSlash_plain normStep_plain)
  ultimately show ?case by simp
qed

lemma hex_token_plain: "length h = 6 \<Longrightarrow> is_hex h \<Longrightarrow> plain_segment h"
  by (auto simp: plain_segment_def is_hex_def hexDigits_def)

subsection \<open>File system calls\<close>

lemma fs_mkdir_frame:
  "same_env w (world_of (fs_mkdir p w))"
  "calls (world_of (fs_mkdir p w)) = calls w @ [Mkdir p]"
  by (simp_all add: fs_mkdir_def Let_def same_env_def split: option.splits)

lemma fs_writeFile_frame:
  "same_env w (world_of (fs_writeFile p c w))"
  "calls (world_of (fs_writeFile p c w)) = calls w @ [WriteFile p c]"
  by (simp_all add: fs_writeFile_def Let_def same_env_def)

lemma fs_writeFile_Returned:
  "fs_writeFile p c w = Returned u w' \<Longrightarrow> files w' = (files w)(p \<mapsto> File c)"
  by (auto simp: fs_writeFile_def Let_def split: if_splits)

subsection \<open>The path generator\<close>

lemma js_max_one:
  "js_max (Num 1) NInf = Num 1" "js_max (Num 1) PInf = PInf" "js_max (Num 1) NaN = NaN"
  "js_max (Num 1) (Num c) = Num (max 1 c)"
  by (auto simp: js_max_def)

lemma makeRandomDir_Some:
  assumes "makeRandomDir base maxD w = Some (Returned dir w')"
  shows "\<exists>parts w2. parts_loop (Num 0) (fst (rndInt (Num 1) (js_max (Num 1) maxD) w)) []
                      (snd (rndInt (Num 1) (js_max (Num 1) maxD) w)) = Some (parts, w2)
           \<and> dir = base @ parts \<and> (\<forall>h \<in> set parts. length h = 6 \<and> is_hex h)
           \<and> fs_mkdir dir w2 = Returned () w' \<and> same_fs w w2"
    and "calls w' = calls w @ [Mkdir dir]"
    and "same_env w w'"
proof -
  let ?depth = "fst (rndInt (Num 1) (js_max (Num 1) maxD) w)"
  let ?w1 = "snd (rndInt (Num 1) (js_max (Num 1) maxD) w)"
  from assms obtain parts w2 where
    pl: "parts_loop (Num 0) ?depth [] ?w1 = Some (parts, w2)"
    by (cases "parts_loop (Num 0) ?depth [] ?w1") (auto simp: makeRandomDir_def split_def Let_def)
  let ?m = "fs_mkdir (path_join base parts) w2"
  have dir: "dir = path_join base parts" and m: "?m = Returned () w'"
    using assms pl by (cases ?m; simp add: makeRandomDir_def split_def Let_def)+
  from parts_loop_partial[OF pl] have
    hex: "\<forall>h \<in> set parts. length h = 6 \<and> is_hex h" and env: "same_env ?w1 w2"
    and fs: "same_fs ?w1 w2"
    by auto
  have j: "path_join base parts = base @ parts"
    using hex by (intro path_join_plain) (auto intro: hex_token_plain)
  have w': "w' = world_of ?m" using m by simp
  have fs2: "same_fs w w2"
    using rndInt_same(2)[of w "Num 1" "js_max (Num 1) maxD"] fs by (rule same_fs_trans)
  have env2: "same_env w w2"
    using rndInt_same(1)[of w "Num 1" "js_max (Num 1) maxD"] env by (rule same_env_trans)
  show "\<exists>parts w2. parts_loop (Num 0) ?depth [] ?w1 = Some (parts, w2)
           \<and> dir = base @ parts \<and> (\<forall>h \<in> set parts. length h = 6 \<and> is_hex h)
           \<and> fs_mkdir dir w2 = Returned () w' \<and> same_fs w w2"
    using pl dir j hex m fs2 by auto
  show "calls w' = calls w @ [Mkdir dir]"
    using fs2 by (simp add: w' dir fs_mkdir_frame same_fs_def)
  show "same_env w w'"
    using env2 fs_mkdir_frame(1)[of w2 "path_join base parts"] w' by (auto intro: same_env_trans)
qed

text \<open>The depth of the directory for a bound that is an integer or \<open>-Infinity\<close>.\<close>

lemma makeRandomDir_depth:
  assumes "makeRandomDir base maxD w = Some (Returned dir w')" and "valid_random w"
    and "maxD = NInf \<or> maxD = Num (of_int m)"
  shows "\<exists>parts. dir = base @ parts \<and> 1 \<le> length parts
           \<and> js_le (Num (of_nat (length parts))) (js_max (Num 1) maxD)
           \<and> (\<forall>h \<in> set parts. length h = 6 \<and> is_hex h)"
proof -
  define M :: int where "M = (if maxD = NInf then 1 else max 1 m)"
  have M: "js_max (Num 1) maxD = Num (of_int M)" "1 \<le> M"
    using assms(3) by (auto simp: M_def js_max_one)
  let ?depth = "fst (rndInt (Num 1) (Num (of_int M)) w)"
  let ?w1 = "snd (rndInt (Num 1) (Num (of_int M)) w)"
  from rndInt_range[OF assms(2) M(2)] obtain n where
    n: "?depth = Num (of_int n)" "1 \<le> n" "n \<le> M"
    by auto
  from makeRandomDir_Some(1)[OF assms(1)] obtain parts w2 where
    p: "parts_loop (Num 0) ?depth [] ?w1 = Some (parts, w2)" "dir = base @ parts"
      "\<forall>h \<in> set parts. length h = 6 \<and> is_hex h"
    unfolding M by blast
  from parts_loop_finite[of 0 "of_int n" "[]" ?w1] p(1) n(1)
  have len: "length parts = nat n" by auto
  have "js_le (Num (of_nat (length parts))) (Num (of_int M))"
    using n(2,3) by (auto simp: len js_le_def)
  then show ?thesis using p(2,3) len n(2) M(1) by auto
qed

lemma makeRandomDir_finite:
  "\<exists>r. makeRandomDir base (Num c) w = Some r"
proof -
  let ?ri = "rndInt (Num 1) (Num (max 1 c)) w"
  obtain x where x: "fst ?ri = Num x"
    by (auto simp: rndInt_Num)
  from parts_loop_finite[of 0 x "[]" "snd ?ri"] obtain ps w' where
    "parts_loop (Num 0) (Num x) [] (snd ?ri) = Some (ps, w')" by blast
  then show ?thesis
    using x by (simp add: makeRandomDir_def split_def Let_def js_max_one)
qed

subsection \<open>Loops that never end\<close>

lemma rndString_loop_PInf: "rndString_loop (Num a) PInf out w = None"
proof (rule ccontr)
  assume "rndString_loop (Num a) PInf out w \<noteq> None"
  then obtain y where y: "rndString_loop (Num a) PInf out w = Some y" by auto
  have "rndString_loop i len out w = Some y \<Longrightarrow> len = PInf \<Longrightarrow> finite_number i \<Longrightarrow> False"
    for i len
  proof (induction i len out w y
      rule: rndString_loop.raw_induct[rotated 1, consumes 1, case_names step])
    case (step f i len out w y)
    from step.prems obtain c where c: "i = Num c" "len = PInf"
      by (cases i) (auto simp: finite_number_def)
    with step.hyps have
      "f (Num (c + 1)) PInf (out @ charAt letters \<lfloor>fst (Math_random w) * of_nat (length letters)\<rfloor>)
         (snd (Math_random w)) = Some y"
      by (simp add: split_def Let_def)
    from step.IH[OF this] show False by (simp add: finite_number_def)
  qed
  from this[OF y] show False by (simp add: finite_number_def)
qed

lemma parts_loop_PInf: "parts_loop (Num a) PInf parts w = None"
proof (rule ccontr)
  assume "parts_loop (Num a) PInf parts w \<noteq> None"
  then obtain y where y: "parts_loop (Num a) PInf parts w = Some y" by auto
  have "parts_loop i depth parts w = Some y \<Longrightarrow> depth = PInf \<Longrightarrow> finite_number i \<Longrightarrow> False"
    for i depth
  proof (induction i depth parts w y
      rule: parts_loop.raw_induct[rotated 1, consumes 1, case_names step])
    case (step f i depth parts w y)
    from step.prems obtain c where c: "i = Num c" "depth = PInf"
      by (cases i) (auto simp: finite_number_def)
    with step.hyps have
      "f (Num (c + 1)) PInf (parts @ [fst (rndHex 6 w)]) (snd (rndHex 6 w)) = Some y"
      by (simp add: split_def Let_def)
    from step.IH[OF this] show False by (simp add: finite_number_def)
  qed
  from this[OF y] show False by (simp add: finite_number_def)
qed

text \<open>The rounds of a string loop that ends, whatever the bound.\<close>

lemma rndString_rounds:
  assumes "rndString len w = Some (s, w')" and "valid_random w"
  shows "length s = rounds len \<and> len \<noteq> PInf"
proof (cases len)
  case (Num c)
  with rndString_finite[of c w] assms show ?thesis by auto
next
  case PInf
  with assms(1) rndString_loop_PInf[of 0 "[]" w] show ?thesis by (simp add: rndString_def)
next
  case NInf
  with assms(1) show ?thesis by (simp add: rndString_def rndString_loop_stop)
next
  case NaN
  with assms(1) show ?thesis by (simp add: rndString_def rndString_loop_stop)
qed

subsection \<open>The file generator\<close>

lemma pick_exts:
  assumes "valid_random w"
  shows "fst (pick exts w) \<in> Some ` set exts"
proof -
  have r: "0 \<le> fst (Math_random w) \<and> fst (Math_random w) < 1"
    using Math_random_range[OF assms] .
  have "0 \<le> \<lfloor>fst (Math_random w) * of_int (int (length exts))\<rfloor>
      \<and> \<lfloor>fst (Math_random w) * of_int (int (length exts))\<rfloor> < int (length exts)"
    using r by (intro floor_scaled_range) (simp_all add: exts_def)
  then show ?thesis
    by (simp add: pick_def split_def Let_def nth_nat_mem)
qed

lemma pick_exts_text: "CHR ''/'' \<notin> set (ext_text (fst (pick exts w)))"
proof -
  have "fst (pick exts w) = None \<or> fst (pick exts w) \<in> Some ` set exts"
    by (simp add: pick_def split_def Let_def nth_nat_mem)
  then show ?thesis
    by (auto simp: ext_text_def exts_def)
qed

lemma draftFile_Some:
  fixes lo hi w
  defines "ext \<equiv> fst (pick exts w)"
  defines "w1 \<equiv> snd (pick exts w)"
  defines "w2 \<equiv> snd (rndHex 8 w1)"
  defines "w3 \<equiv> snd (rndInt lo hi w2)"
  assumes "draftFile lo hi w = Some (d, w')"
  shows "d_ext d = ext"
    and "d_name d = ''file_'' @ fst (rndHex 8 w1) @ ext_text ext"
    and "d_len d = fst (rndInt lo hi w2)"
    and "\<exists>w4. rndString (d_len d) w3 = Some (d_content d, w4)
           \<and> d_final d =
               (if ext = Some ''.html'' then html_shell (fst (rndHex 6 w4)) (d_content d)
                else if ext = Some ''.js'' then js_shell (fst (rndHex 6 w4)) (d_content d)
                else if ext = Some ''.css'' then css_shell (fst (rndHex 6 w4)) (d_content d)
                else d_content d)"
    and "same_env w w'" and "same_fs w w'"
proof -
  let ?len = "fst (rndInt lo hi w2)"
  from assms(5) obtain content w4 where rs: "rndString ?len w3 = Some (content, w4)"
    unfolding ext_def w1_def w2_def w3_def
    by (cases "rndString (fst (rndInt lo hi (snd (rndHex 8 (snd (pick exts w))))))
                 (snd (rndInt lo hi (snd (rndHex 8 (snd (pick exts w))))))")
       (auto simp: draftFile_def split_def Let_def)
  let ?fin = "if ext = Some ''.html'' then html_shell (fst (rndHex 6 w4)) content
              else if ext = Some ''.js'' then js_shell (fst (rndHex 6 w4)) content
              else if ext = Some ''.css'' then css_shell (fst (rndHex 6 w4)) content
              else content"
  let ?w5 = "if ext = Some ''.html'' \<or> ext = Some ''.js'' \<or> ext = Some ''.css''
             then snd (rndHex 6 w4) else w4"
  have eq: "draftFile lo hi w
        = Some (\<lparr>d_ext = ext, d_name = ''file_'' @ fst (rndHex 8 w1) @ ext_text ext,
                  d_len = ?len, d_content = content, d_final = ?fin\<rparr>, ?w5)"
    using rs unfolding ext_def w1_def w2_def w3_def
    by (simp add: draftFile_def split_def Let_def)
  with assms(5) have d: "d = \<lparr>d_ext = ext, d_name = ''file_'' @ fst (rndHex 8 w1) @ ext_text ext,
                  d_len = ?len, d_content = content, d_final = ?fin\<rparr>" and w': "w' = ?w5"
    by simp_all
  show "d_ext d = ext" "d_name d = ''file_'' @ fst (rndHex 8 w1) @ ext_text ext"
    "d_len d = fst (rndInt lo hi w2)"
    by (simp_all add: d)
  show "\<exists>w4. rndString (d_len d) w3 = Some (d_content d, w4)
           \<and> d_final d =
               (if ext = Some ''.html'' then html_shell (fst (rndHex 6 w4)) (d_content d)
                else if ext = Some ''.js'' then js_shell (fst (rndHex 6 w4)) (d_content d)
                else if ext = Some ''.css'' then css_shell (fst (rndHex 6 w4)) (d_content d)
                else d_content d)"
    using rs by (intro exI[of _ w4]) (simp add: d)
  have e4: "same_env w w4"
    using pick_same(1)[of w exts] rndHex_same(1)[of w1 8] rndInt_same(1)[of w2 lo hi]
      rndString_partial(2)[OF rs]
    unfolding w1_def w2_def w3_def by (blast intro: same_env_trans)
  have f4: "same_fs w w4"
    using pick_same(2)[of w exts] rndHex_same(2)[of w1 8] rndInt_same(2)[of w2 lo hi]
      rndString_partial(3)[OF rs]
    unfolding w1_def w2_def w3_def by (blast intro: same_fs_trans)
  show "same_env w w'"
    using e4 rndHex_same(1)[of w4 6] unfolding w' by (auto intro: same_env_trans)
  show "same_fs w w'"
    using f4 rndHex_same(2)[of w4 6] unfolding w' by (auto intro: same_fs_trans)
qed

lemma draftFile_name_plain:
  assumes "draftFile lo hi w = Some (d, w')"
  shows "plain_segment (d_name d)"
proof -
  have "CHR ''/'' \<notin> set (fst (rndHex 8 (snd (pick exts w))))"
    using rndHex_hex[of 8 "snd (pick exts w)"] by (auto simp: is_hex_def hexDigits_def)
  then show ?thesis
    using pick_exts_text[of w] by (simp add: draftFile_Some(2)[OF assms] plain_segment_def)
qed

lemma draftFile_name_length: "draftFile lo hi w = Some (d, w') \<Longrightarrow> 6 < length (d_name d)"
  by (simp add: draftFile_Some(2) rndHex_length)

lemma draftFile_content:
  assumes "draftFile lo hi w = Some (d, w')"
  shows "set (d_content d) \<subseteq> set letters"
    and "valid_random w \<Longrightarrow> length (d_content d) = rounds (d_len d) \<and> d_len d \<noteq> PInf"
proof -
  let ?w2 = "snd (rndHex 8 (snd (pick exts w)))"
  let ?w3 = "snd (rndInt lo hi ?w2)"
  from draftFile_Some(4)[OF assms] obtain w4 where
    rs: "rndString (d_len d) ?w3 = Some (d_content d, w4)" by blast
  show "set (d_content d) \<subseteq> set letters"
    using rndString_partial(1)[OF rs] .
  assume v: "valid_random w"
  have "same_env w ?w3"
    using pick_same(1)[of w exts] rndHex_same(1)[of "snd (pick exts w)" 8]
      rndInt_same(1)[of ?w2 lo hi]
    by (blast intro: same_env_trans)
  then have "valid_random ?w3" using v valid_random_same by simp
  from rndString_rounds[OF rs this]
  show "length (d_content d) = rounds (d_len d) \<and> d_len d \<noteq> PInf" .
qed

text \<open>For integer bounds in order the generator ends, with a length within the bounds.\<close>

lemma draftFile_finite:
  "\<exists>d w'. draftFile (Num a) (Num b) w = Some (d, w')"
proof -
  let ?w2 = "snd (rndHex 8 (snd (pick exts w)))"
  obtain x where x: "fst (rndInt (Num a) (Num b) ?w2) = Num x"
    by (auto simp: rndInt_Num)
  from rndString_finite[of x "snd (rndInt (Num a) (Num b) ?w2)"] obtain s w4 where
    "rndString (Num x) (snd (rndInt (Num a) (Num b) ?w2)) = Some (s, w4)" by blast
  then show ?thesis
    using x by (simp add: draftFile_def split_def Let_def)
qed

lemma draftFile_range:
  assumes "valid_random w" and "a \<le> b"
  shows "\<exists>d w' n. draftFile (Num (of_int a)) (Num (of_int b)) w = Some (d, w')
           \<and> d_len d = Num (of_int n) \<and> a \<le> n \<and> n \<le> b
           \<and> length (d_content d) = nat n \<and> set (d_content d) \<subseteq> set letters"
proof -
  let ?w2 = "snd (rndHex 8 (snd (pick exts w)))"
  from draftFile_finite[of "of_int a" "of_int b" w] obtain d w' where
    d: "draftFile (Num (of_int a)) (Num (of_int b)) w = Some (d, w')" by blast
  have "same_env w ?w2"
    using pick_same(1)[of w exts] rndHex_same(1)[of "snd (pick exts w)" 8]
    by (blast intro: same_env_trans)
  then have "valid_random ?w2" using assms(1) valid_random_same by simp
  from rndInt_range[OF this assms(2)] obtain n where
    n: "d_len d = Num (of_int n)" "a \<le> n" "n \<le> b"
    unfolding draftFile_Some(3)[OF d] by blast
  from draftFile_content[OF d] assms(1) n(1)
  have "length (d_content d) = nat n" "set (d_content d) \<subseteq> set letters"
    by simp_all
  with d n show ?thesis by blast
qed

lemma ext_suffix_unique:
  "e \<in> set exts \<Longrightarrow> e' \<in> set exts \<Longrightarrow> suffix e (xs @ e') \<Longrightarrow> e = e'"
  by (auto simp: exts_def suffix_to_prefix)

lemma draftFile_shape:
  assumes "valid_random w" and "draftFile lo hi w = Some (d, w')"
  shows "\<exists>e h t. e \<in> set exts \<and> d_ext d = Some e \<and> d_name d = (''file_'' @ h) @ e
           \<and> length h = 8 \<and> length t = 6
           \<and> d_final d =
               (if e = ''.html'' then html_shell t (d_content d)
                else if e = ''.js'' then js_shell t (d_content d)
                else if e = ''.css'' then css_shell t (d_content d)
                else d_content d)"
proof -
  from pick_exts[OF assms(1)] obtain e where e: "e \<in> set exts" "fst (pick exts w) = Some e"
    by auto
  let ?h = "fst (rndHex 8 (snd (pick exts w)))"
  from draftFile_Some(4)[OF assms(2)] obtain w4 where
    fin: "d_final d =
               (if fst (pick exts w) = Some ''.html'' then html_shell (fst (rndHex 6 w4)) (d_content d)
                else if fst (pick exts w) = Some ''.js'' then js_shell (fst (rndHex 6 w4)) (d_content d)
                else if fst (pick exts w) = Some ''.css'' then css_shell (fst (rndHex 6 w4)) (d_content d)
                else d_content d)"
    by blast
  let ?t = "fst (rndHex 6 w4)"
  have "d_ext d = Some e" "d_name d = (''file_'' @ ?h) @ e"
    using e(2) by (simp_all add: draftFile_Some(1,2)[OF assms(2)] ext_text_def)
  moreover have "length ?h = 8" "length ?t = 6" by (simp_all add: rndHex_length)
  moreover have "d_final d =
               (if e = ''.html'' then html_shell ?t (d_content d)
                else if e = ''.js'' then js_shell ?t (d_content d)
                else if e = ''.css'' then css_shell ?t (d_content d)
                else d_content d)"
    using e(2) fin by simp
  ultimately show ?thesis using e(1) by blast
qed

lemma makeRandomFile_Some:
  assumes "makeRandomFile dir lo hi w = Some (Returned fl w')"
  shows "\<exists>d w1. draftFile lo hi w = Some (d, w1) \<and> fl = dir @ [d_name d]
           \<and> fs_writeFile fl (d_final d) w1 = Returned () w'
           \<and> calls w' = calls w @ [WriteFile fl (d_final d)]
           \<and> files w' = (files w)(fl \<mapsto> File (d_final d))"
    and "same_env w w'"
proof -
  from assms obtain d w1 where d: "draftFile lo hi w = Some (d, w1)"
    by (cases "draftFile lo hi w") (auto simp: makeRandomFile_def)
  let ?m = "fs_writeFile (path_join dir [d_name d]) (d_final d) w1"
  have j: "path_join dir [d_name d] = dir @ [d_name d]"
    using draftFile_name_plain[OF d] by (intro path_join_plain) simp
  have m: "?m = Returned () w'" and f: "fl = path_join dir [d_name d]"
    using assms d by (cases ?m; simp add: makeRandomFile_def split_def Let_def)+
  have w': "w' = world_of ?m" using m by simp
  have fs: "same_fs w w1" and env: "same_env w w1"
    using draftFile_Some(5,6)[OF d] by simp_all
  have "calls w' = calls w @ [WriteFile fl (d_final d)]"
    using fs by (simp add: w' fs_writeFile_frame f same_fs_def)
  moreover have "files w' = (files w)(fl \<mapsto> File (d_final d))"
    using fs_writeFile_Returned[OF m] fs by (simp add: f same_fs_def)
  ultimately show "\<exists>d w1. draftFile lo hi w = Some (d, w1) \<and> fl = dir @ [d_name d]
           \<and> fs_writeFile fl (d_final d) w1 = Returned () w'
           \<and> calls w' = calls w @ [WriteFile fl (d_final d)]
           \<and> files w' = (files w)(fl \<mapsto> File (d_final d))"
    using d f j m by auto
  show "same_env w w'"
    using env fs_writeFile_frame(1)[of w1 "path_join dir [d_name d]" "d_final d"] w'
    by (auto intro: same_env_trans)
qed

subsection \<open>The sanity step\<close>

lemma sanity_fields:
  "minLen (sanity opts) = (if js_less (minLen opts) (Num 0) then Num 0 else minLen opts)"
  "maxLen (sanity opts) = (if js_less (maxLen opts) (minLen (sanity opts))
                            then minLen (sanity opts) else maxLen opts)"
  "count (sanity opts) = count opts" "maxDepth (sanity opts) = maxDepth opts"
  "outDir (sanity opts) = outDir opts"
  by (simp_all add: sanity_def Let_def)

lemma js_max_zero: "x \<noteq> NaN \<Longrightarrow> js_max (Num 0) x = (if js_less x (Num 0) then Num 0 else x)"
  by (cases x) (auto simp: js_max_def)

text \<open>After the sanity step on numbers that the argument loop can store: either the
  maximum is \<open>Infinity\<close>, or both lengths are integers, in order, from 0 on.\<close>

lemma sanity_parsed:
  assumes "parsed_number (minLen opts)" and "parsed_number (maxLen opts)"
    and "maxLen (sanity opts) \<noteq> PInf"
  shows "\<exists>a b. minLen (sanity opts) = Num (of_int a) \<and> maxLen (sanity opts) = Num (of_int b)
           \<and> 0 \<le> a \<and> a \<le> b"
proof -
  from assms(1) consider "minLen opts = PInf" | "minLen opts = NInf"
    | k where "minLen opts = Num (of_int k)"
    by (auto simp: parsed_number_def)
  then obtain a where a: "minLen (sanity opts) = PInf \<or> (minLen (sanity opts) = Num (of_int a) \<and> 0 \<le> a)"
  proof cases
    case 1
    then show ?thesis using that by (simp add: sanity_fields)
  next
    case 2
    then have "minLen (sanity opts) = Num (of_int 0)" by (simp add: sanity_fields)
    then show ?thesis using that[of 0] by simp
  next
    case (3 k)
    show ?thesis
    proof (cases "k < 0")
      case True
      with 3 have "minLen (sanity opts) = Num (of_int 0)" by (simp add: sanity_fields)
      then show ?thesis using that[of 0] by simp
    next
      case False
      with 3 have "minLen (sanity opts) = Num (of_int k)" by (simp add: sanity_fields)
      then show ?thesis using that[of k] False by simp
    qed
  qed
  from assms(2) consider "maxLen opts = PInf" | "maxLen opts = NInf"
    | m where "maxLen opts = Num (of_int m)"
    by (auto simp: parsed_number_def)
  then show ?thesis
  proof cases
    case 1
    with assms(3) show ?thesis
      by (cases "minLen (sanity opts)") (auto simp: sanity_fields(2) split: if_splits)
  next
    case 2
    with a assms(3) show ?thesis
      by (cases "minLen (sanity opts)") (auto simp: sanity_fields(2) split: if_splits)
  next
    case (3 m)
    from a assms(3) 3 have fin: "minLen (sanity opts) = Num (of_int a)" "0 \<le> a"
      by (auto simp: sanity_fields(2) split: if_splits)
    show ?thesis
    proof (cases "m < a")
      case True
      with 3 fin have "maxLen (sanity opts) = Num (of_int a)" by (simp add: sanity_fields(2))
      with fin show ?thesis by auto
    next
      case False
      with 3 fin have "maxLen (sanity opts) = Num (of_int m)" by (simp add: sanity_fields(2))
      with fin False show ?thesis by auto
    qed
  qed
qed

text \<open>The argument loop stores integers and infinities only.\<close>

lemma parse_list_parsed:
  "parse_list args opts w = Returned opts' w' \<Longrightarrow> parsed_options opts
   \<Longrightarrow> parsed_options opts'"
proof (induction args opts w rule: parse_list.induct)
  case (1 opts w)
  then show ?case by simp
next
  case (2 a rest opts w)
  show ?case
  proof (cases "a \<in> set value_flags \<and> rest \<noteq> [] \<and> hd rest \<noteq> []")
    case True
    let ?o = "if a = ''--count'' then opts\<lparr>count := or_else (parseInt (hd rest)) (count opts)\<rparr>
           else if a = ''--min'' then opts\<lparr>minLen := or_else (parseInt (hd rest)) (minLen opts)\<rparr>
           else if a = ''--max'' then opts\<lparr>maxLen := or_else (parseInt (hd rest)) (maxLen opts)\<rparr>
           else if a = ''--out'' then opts\<lparr>outDir := path_resolve (cwd w) (hd rest)\<rparr>
           else opts\<lparr>maxDepth := or_else (parseInt (hd rest)) (maxDepth opts)\<rparr>"
    have p: "parsed_options ?o"
      using "2.prems"(2) by (simp add: parsed_options_def or_else_parsed)
    have "parse_list (tl rest) ?o w = Returned opts' w'"
      using "2.prems"(1) True by simp
    from "2.IH"(1)[OF True this p] show ?thesis .
  next
    case False
    show ?thesis
    proof (cases "a = ''--help'' \<or> a = ''-h''")
      case True
      with False "2.prems"(1) show ?thesis by auto
    next
      case nh: False
      with False "2.prems"(1) have "parse_list rest opts w = Returned opts' w'" by auto
      from "2.IH"(2)[OF False nh this "2.prems"(2)] show ?thesis .
    qed
  qed
qed

lemma DEFAULTS_parsed: "parsed_options (DEFAULTS w)"
proof -
  have "parsed_number (Num (of_int k))" for k by (auto simp: parsed_number_def)
  from this[of 20] this[of 50] this[of 500] this[of 3] show ?thesis
    by (simp add: parsed_options_def DEFAULTS_def)
qed

lemma parse_loop_parsed:
  "parse_loop argv 0 (DEFAULTS v) w = Returned parsed w' \<Longrightarrow> parsed_options parsed"
  using parse_list_parsed[OF _ DEFAULTS_parsed] by (simp add: parse_loop_all)

subsection \<open>The orchestrator\<close>

lemma create_loop_steps:
  assumes "create_loop i opts created w = Some y"
  shows "\<forall>res w'. y = Returned res w' \<longrightarrow>
     (\<exists>steps. res = created @ map (\<lambda>(d, f, c). f) steps
       \<and> calls w' = calls w @ concat (map (\<lambda>(d, f, c). [Mkdir d, WriteFile f c]) steps)
       \<and> (\<forall>(d, f, c) \<in> set steps. butlast f = d)
       \<and> same_env w w'
       \<and> (finite_number i \<longrightarrow> count opts \<noteq> PInf
            \<and> length steps = rounds (js_sub (count opts) i)))"
  using assms
proof (induction i opts created w y
    rule: create_loop.raw_induct[rotated 1, consumes 1, case_names step])
  case (step f i opts created w y)
  show ?case
  proof (intro allI impI)
    fix res w'
    assume y: "y = Returned res w'"
    show "\<exists>steps. res = created @ map (\<lambda>(d, f, c). f) steps
       \<and> calls w' = calls w @ concat (map (\<lambda>(d, f, c). [Mkdir d, WriteFile f c]) steps)
       \<and> (\<forall>(d, f, c) \<in> set steps. butlast f = d)
       \<and> same_env w w'
       \<and> (finite_number i \<longrightarrow> count opts \<noteq> PInf
            \<and> length steps = rounds (js_sub (count opts) i))"
    proof (cases "js_less i (count opts)")
      case False
      with step.hyps y have r: "res = created" "w' = w" by simp_all
      have "finite_number i \<longrightarrow> count opts \<noteq> PInf \<and> 0 = rounds (js_sub (count opts) i)"
        using False by (cases i; cases "count opts") (auto simp: finite_number_def js_sub_def)
      with r show ?thesis by (intro exI[of _ "[]"]) (simp add: same_env_refl)
    next
      case True
      from step.hyps True y obtain dir w1 where
        dir: "makeRandomDir (outDir opts) (maxDepth opts) w = Some (Returned dir w1)"
        by (auto split: option.splits outcome.splits)
      from step.hyps True y dir obtain fl w2 where
        wr: "makeRandomFile dir (minLen opts) (maxLen opts) w1 = Some (Returned fl w2)"
        by (auto split: option.splits outcome.splits)
      from step.hyps True dir wr
      have rest: "f (js_add i (Num 1)) opts (created @ [fl]) w2 = Some y"
        by simp
      from step.IH[OF rest] y obtain steps where
        steps: "res = (created @ [fl]) @ map (\<lambda>(d, f, c). f) steps"
          "calls w' = calls w2 @ concat (map (\<lambda>(d, f, c). [Mkdir d, WriteFile f c]) steps)"
          "\<forall>(d, f, c) \<in> set steps. butlast f = d"
          "same_env w2 w'"
          "finite_number (js_add i (Num 1)) \<longrightarrow> count opts \<noteq> PInf
            \<and> length steps = rounds (js_sub (count opts) (js_add i (Num 1)))"
        by blast
      from makeRandomFile_Some(1)[OF wr] obtain d :: draft where
        d: "fl = dir @ [d_name d]" "calls w2 = calls w1 @ [WriteFile fl (d_final d)]"
        by blast
      let ?steps = "(dir, fl, d_final d) # steps"
      have "res = created @ map (\<lambda>(d, f, c). f) ?steps" using steps(1) by simp
      moreover have
        "calls w' = calls w @ concat (map (\<lambda>(d, f, c). [Mkdir d, WriteFile f c]) ?steps)"
        using steps(2) makeRandomDir_Some(2)[OF dir] d(2) by simp
      moreover have "\<forall>(d, f, c) \<in> set ?steps. butlast f = d"
        using steps(3) d(1) by simp
      moreover have "same_env w w'"
        using makeRandomDir_Some(3)[OF dir] makeRandomFile_Some(2)[OF wr] steps(4)
        by (blast intro: same_env_trans)
      moreover have "count opts \<noteq> PInf \<and> length ?steps = rounds (js_sub (count opts) i)"
        if "finite_number i"
      proof -
        from that obtain a where a: "i = Num a" by (cases i) (auto simp: finite_number_def)
        with steps(5) have s: "count opts \<noteq> PInf"
          "length steps = rounds (js_sub (count opts) (Num (a + 1)))"
          by (simp_all add: finite_number_def)
        from True a s(1) obtain c where c: "count opts = Num c" "a < c"
          by (cases "count opts") auto
        have "length steps = nat \<lceil>c - (a + 1)\<rceil>" using s(2) c by (simp add: js_sub_Num)
        moreover have "nat \<lceil>c - a\<rceil> = Suc (nat \<lceil>c - (a + 1)\<rceil>)" using c(2) by linarith
        ultimately show ?thesis using a c by (simp add: js_sub_Num)
      qed
      ultimately show ?thesis by blast
    qed
  qed
qed

lemma create_loop_Returned:
  assumes "create_loop (Num 0) opts [] w = Some (Returned created w')"
  shows "\<exists>steps. created = map (\<lambda>(d, f, c). f) steps
       \<and> calls w' = calls w @ concat (map (\<lambda>(d, f, c). [Mkdir d, WriteFile f c]) steps)
       \<and> (\<forall>(d, f, c) \<in> set steps. butlast f = d)"
    and "same_env w w'"
    and "count opts \<noteq> PInf" and "length created = rounds (count opts)"
proof -
  from create_loop_steps[OF assms] obtain steps where
    s: "created = [] @ map (\<lambda>(d, f, c). f) steps"
      "calls w' = calls w @ concat (map (\<lambda>(d, f, c). [Mkdir d, WriteFile f c]) steps)"
      "\<forall>(d, f, c) \<in> set steps. butlast f = d" "same_env w w'"
      "finite_number (Num 0) \<longrightarrow> count opts \<noteq> PInf
            \<and> length steps = rounds (js_sub (count opts) (Num 0))"
    by blast
  show "\<exists>steps. created = map (\<lambda>(d, f, c). f) steps
       \<and> calls w' = calls w @ concat (map (\<lambda>(d, f, c). [Mkdir d, WriteFile f c]) steps)
       \<and> (\<forall>(d, f, c) \<in> set steps. butlast f = d)"
    using s(1,2,3) by auto
  show "same_env w w'" using s(4) .
  from s(5) show "count opts \<noteq> PInf" by (simp add: finite_number_def)
  have "rounds (js_sub (count opts) (Num 0)) = rounds (count opts)"
    by (cases "count opts") (simp_all add: js_sub_def js_sub_Num)
  with s(1,5) show "length created = rounds (count opts)" by (simp add: finite_number_def)
qed

subsection \<open>Runs that cannot fail\<close>

lemma clean_same:
  "same_env w w' \<Longrightarrow> same_fs w w' \<Longrightarrow> clean base w' = clean base w"
  by (simp add: clean_def same_env_def same_fs_def)

lemma find_None_all: "(find P xs = None) = (\<forall>x \<in> set xs. \<not> P x)"
  by (auto simp: find_None_iff)

lemma last_of_prefix: "prefix r parts \<Longrightarrow> r \<noteq> [] \<Longrightarrow> last r \<in> set parts"
  by (meson last_in_set set_mono_prefix subsetD)

lemma prefix_beyond:
  "prefix q (base @ parts) \<Longrightarrow> \<not> prefix q base \<Longrightarrow>
   \<exists>r. q = base @ r \<and> r \<noteq> [] \<and> prefix r parts"
  by (auto simp: prefix_append)

lemma fs_mkdir_clean:
  assumes c: "clean base w" and p: "p = base @ parts" and t: "\<forall>h \<in> set parts. length h = 6"
  shows "\<exists>w'. fs_mkdir p w = Returned () w' \<and> clean base w' \<and> files w' p = Some Dir"
proof -
  have nofile: "files w q \<noteq> Some (File x)" if "prefix q p" for q x
  proof
    assume f: "files w q = Some (File x)"
    with c have sp: "strict_prefix base q" and len: "6 < length (last q)"
      by (auto simp: clean_def)
    from sp obtain r where r: "q = base @ r" "r \<noteq> []"
      by (auto simp: strict_prefix_def prefix_def)
    with that p have "prefix r parts" by simp
    with r(2) have "last r \<in> set parts"
      by (intro last_of_prefix)
    with t len r show False by simp
  qed
  have none: "find (\<lambda>q. case files w q of Some (File _) \<Rightarrow> True | _ \<Rightarrow> False) (prefixes p) = None"
    using nofile by (auto simp: find_None_all split: option.splits node.splits)
  let ?w' = "w\<lparr>calls := calls w @ [Mkdir p],
               files := (\<lambda>q. if prefix q p then Some Dir else files w q)\<rparr>"
  have r: "fs_mkdir p w = Returned () ?w'"
    using c none by (simp add: fs_mkdir_def clean_def Let_def)
  have newdir: "prefix q base \<or> (prefix base q \<and> length (last q) = 6)" if "prefix q p" for q
  proof (cases "prefix q base")
    case True
    then show ?thesis by simp
  next
    case False
    from that p have "prefix q (base @ parts)" by simp
    with False obtain r where r: "q = base @ r" "r \<noteq> []" "prefix r parts"
      using prefix_beyond by blast
    then have "last r \<in> set parts"
      by (intro last_of_prefix)
    with t r show ?thesis by simp
  qed
  have "clean base ?w'"
    using c newdir by (auto simp: clean_def)
  with r show ?thesis by (intro exI[of _ ?w']) simp
qed

lemma fs_writeFile_clean:
  assumes c: "clean base w" and d: "files w dir = Some Dir" and b: "prefix base dir"
    and n: "6 < length name"
  shows "\<exists>w'. fs_writeFile (dir @ [name]) content w = Returned () w' \<and> clean base w'"
proof -
  let ?t = "dir @ [name]"
  have sp: "strict_prefix base ?t"
    using b by (auto simp: strict_prefix_def prefix_def)
  have np: "\<not> prefix ?t base"
  proof
    assume "prefix ?t base"
    then have "length ?t \<le> length base" by (rule prefix_length_le)
    moreover from b have "length base \<le> length dir" by (rule prefix_length_le)
    ultimately show False by simp
  qed
  have notdir: "files w ?t \<noteq> Some Dir"
  proof
    assume "files w ?t = Some Dir"
    with c have "prefix ?t base \<or> length (last ?t) = 6" by (auto simp: clean_def)
    with np n show False by auto
  qed
  let ?w' = "w\<lparr>calls := calls w @ [WriteFile ?t content],
               files := (files w)(?t \<mapsto> File content)\<rparr>"
  have r: "fs_writeFile ?t content w = Returned () ?w'"
    using c d notdir by (simp add: fs_writeFile_def clean_def Let_def)
  have "clean base ?w'"
    using c sp n by (auto simp: clean_def)
  with r show ?thesis by (intro exI[of _ ?w']) simp
qed

lemma makeRandomDir_clean:
  assumes "clean base w"
  shows "\<exists>dir w'. makeRandomDir base (Num m) w = Some (Returned dir w') \<and> clean base w'
           \<and> files w' dir = Some Dir \<and> prefix base dir"
proof -
  let ?ri = "rndInt (Num 1) (js_max (Num 1) (Num m)) w"
  obtain x where x: "fst ?ri = Num x"
    by (auto simp: rndInt_Num js_max_one)
  from parts_loop_finite[of 0 x "[]" "snd ?ri"] obtain ps w2 where
    pl: "parts_loop (Num 0) (fst ?ri) [] (snd ?ri) = Some (ps, w2)"
    unfolding x by blast
  from parts_loop_partial[OF pl] have
    tok: "\<forall>h \<in> set ps. length h = 6 \<and> is_hex h" and env: "same_env (snd ?ri) w2"
    and fs: "same_fs (snd ?ri) w2"
    by auto
  have j: "path_join base ps = base @ ps"
    using tok by (intro path_join_plain) (auto intro: hex_token_plain)
  have "same_env w w2" "same_fs w w2"
    using rndInt_same[of w "Num 1" "js_max (Num 1) (Num m)"] env fs
    by (blast intro: same_env_trans same_fs_trans)+
  then have "clean base w2" using assms clean_same by simp
  from fs_mkdir_clean[OF this j] tok obtain w' where
    w': "fs_mkdir (path_join base ps) w2 = Returned () w'" "clean base w'"
      "files w' (path_join base ps) = Some Dir"
    by auto
  then have "makeRandomDir base (Num m) w = Some (Returned (path_join base ps) w')"
    using pl by (simp add: makeRandomDir_def split_def Let_def)
  with w' j show ?thesis by auto
qed

lemma makeRandomFile_clean:
  assumes "clean base w" and "files w dir = Some Dir" and "prefix base dir"
  shows "\<exists>f w'. makeRandomFile dir (Num a) (Num b) w = Some (Returned f w') \<and> clean base w'"
proof -
  from draftFile_finite[of a b w] obtain d w1 where
    d: "draftFile (Num a) (Num b) w = Some (d, w1)" by blast
  have j: "path_join dir [d_name d] = dir @ [d_name d]"
    using draftFile_name_plain[OF d] by (intro path_join_plain) simp
  have c: "clean base w1" and dd: "files w1 dir = Some Dir"
    using assms(1,2) draftFile_Some(5,6)[OF d] clean_same[of w w1 base]
    by (simp_all add: same_fs_def)
  from fs_writeFile_clean[OF c dd assms(3) draftFile_name_length[OF d], of "d_final d"]
  obtain w' where "fs_writeFile (dir @ [d_name d]) (d_final d) w1 = Returned () w'"
    "clean base w'"
    by blast
  then show ?thesis
    using d by (simp add: makeRandomFile_def split_def Let_def j)
qed

lemma create_loop_clean:
  assumes "finite_options opts" and "count opts = Num c"
  shows "clean (outDir opts) w \<Longrightarrow>
         \<exists>res w'. create_loop (Num a) opts created w = Some (Returned res w')"
proof (induction "nat \<lceil>c - a\<rceil>" arbitrary: a created w)
  case 0
  then have "\<not> a < c" by linarith
  then show ?case using assms(2) by (subst create_loop.simps) simp
next
  case (Suc n)
  then have lt: "a < c" by linarith
  have n: "n = nat \<lceil>c - (a + 1)\<rceil>" using Suc(2) by linarith
  from assms(1) obtain m lo hi where
    f: "maxDepth opts = Num m" "minLen opts = Num lo" "maxLen opts = Num hi"
    by (cases "maxDepth opts"; cases "minLen opts"; cases "maxLen opts")
       (auto simp: finite_options_def finite_number_def)
  from makeRandomDir_clean[OF Suc.prems, of m] obtain dir w1 where
    mk: "makeRandomDir (outDir opts) (maxDepth opts) w = Some (Returned dir w1)"
    and c1: "clean (outDir opts) w1" "files w1 dir = Some Dir" "prefix (outDir opts) dir"
    unfolding f by blast
  from makeRandomFile_clean[OF c1, of lo hi] obtain fl w2 where
    wr: "makeRandomFile dir (minLen opts) (maxLen opts) w1 = Some (Returned fl w2)"
    and c2: "clean (outDir opts) w2"
    unfolding f by blast
  from Suc(1)[OF n c2, of "created @ [fl]"] obtain res w' where
    "create_loop (Num (a + 1)) opts (created @ [fl]) w2 = Some (Returned res w')" by blast
  then show ?case
    using lt mk wr assms(2) by (subst create_loop.simps) simp
qed

subsection \<open>Standard output\<close>

lemma report_fold:
  "stdout (foldl (\<lambda>v f. console_log ('' - '' @ path_relative (cwd v) f) v) w fs)
     = stdout w @ map (\<lambda>f. '' - '' @ path_relative (cwd w) f) fs
   \<and> cwd (foldl (\<lambda>v f. console_log ('' - '' @ path_relative (cwd v) f) v) w fs) = cwd w"
  by (induction fs arbitrary: w) (simp_all add: console_log_def)

lemma report_stdout:
  "stdout (report opts created w)
     = stdout w
       @ (''Created '' @ numToString (Num (of_nat (length created))) @ '' files under ''
          @ path_string (outDir opts))
       # map (\<lambda>f. '' - '' @ path_relative (cwd w) f) created"
  unfolding report_def
  using report_fold
    [of "console_log (''Created '' @ numToString (Num (of_nat (length created)))
           @ '' files under '' @ path_string (outDir opts)) w" created]
  by (simp add: console_log_def)

lemma main_clean:
  assumes p: "parse_loop argv 0 (DEFAULTS w) w = Returned parsed w'"
    and c: "clean (outDir (sanity parsed)) w"
    and f: "finite_options (sanity parsed)"
  shows "\<exists>created w''. main argv w = Some (0, w'')
           \<and> length created = rounds (count (sanity parsed))
           \<and> stdout w''
               = stdout w
                 @ (''Created '' @ numToString (Num (of_nat (length created)))
                    @ '' files under '' @ path_string (outDir (sanity parsed)))
                 # map (\<lambda>f. '' - '' @ path_relative (cwd w) f) created"
proof -
  let ?o = "sanity parsed"
  have w': "w' = w" using p parse_list_world by (simp add: parse_loop_all)
  from fs_mkdir_clean[OF c, of "outDir ?o" "[]"] obtain w2 where
    mk: "fs_mkdir (outDir ?o) w = Returned () w2" and c2: "clean (outDir ?o) w2"
    by auto
  have io2: "same_env w w2"
    using fs_mkdir_frame(1)[of w "outDir ?o"] mk by simp
  from f obtain n where n: "count ?o = Num n"
    by (cases "count ?o") (auto simp: finite_options_def finite_number_def)
  from create_loop_clean[OF f n c2, of 0 "[]"] obtain created w3 where
    lp: "create_loop (Num 0) ?o [] w2 = Some (Returned created w3)"
    by blast
  have io3: "same_env w w3"
    using io2 create_loop_Returned(2)[OF lp] by (rule same_env_trans)
  have len: "length created = rounds (count ?o)" using create_loop_Returned(4)[OF lp] .
  have "main argv w = Some (0, report ?o created w3)"
    using p w' mk lp by (simp add: main_def main_body_def)
  with len io3 show ?thesis
    by (intro exI[of _ created] exI[of _ "report ?o created w3"])
       (simp add: report_stdout same_env_def)
qed

subsection \<open>The sample worlds\<close>

lemma valid_random_sample: "valid_random sample_world"
  by (simp add: valid_random_def sample_world_def)

lemma valid_random_constant: "0 \<le> r \<Longrightarrow> r < 1 \<Longrightarrow> valid_random (constant_world r)"
  by (simp add: valid_random_def constant_world_def)

lemma clean_sample: "clean [''work'', ''dist''] sample_world"
proof -
  have "prefix q [''work'', ''dist'']" if "prefix q [''work'']" for q :: path
    using prefix_prefix[OF that, of "[''dist'']"] by simp
  then show ?thesis
    by (auto simp: clean_def sample_world_def split: if_splits)
qed

lemma numToString_20: "numToString (Num 20) = ''20''"
  by (simp add: numToString_def intToString_def digits.simps)

lemma path_resolve_dist: "path_resolve [''work''] ''dist'' = [''work'', ''dist'']"
  by (simp add: path_resolve_def normStep_def)

lemma returned_option:
  "map_option returned r = Some (Some x) \<Longrightarrow> \<exists>w. r = Some (Returned x w)"
  by (cases r; cases "the r") auto


section \<open>The claims\<close>

text \<open>
  Claim C1, on the code. For \<^verbatim>\<open>--count 0\<close> the parsed value 0 is falsy, so the count stays
  20: the options that \<open>main\<close> uses have count 20 and the run is the run without
  arguments. From a world in which the generator cannot fail, the run exits with code 0
  after it has reported 20 created files.
\<close>

theorem count_zero_keeps_default_count:
  "parse_loop [''--count'', ''0''] 0 (DEFAULTS w) w = Returned (DEFAULTS w) w
   \<and> count (sanity (DEFAULTS w)) = Num 20
   \<and> main [''--count'', ''0''] w = main [] w
   \<and> (clean (outDir (DEFAULTS w)) w
        \<longrightarrow> (\<exists>created w'. main [''--count'', ''0''] w = Some (0, w')
                  \<and> length created = 20
                  \<and> stdout w'
                      = stdout w
                        @ (''Created 20 files under '' @ path_string (outDir (DEFAULTS w)))
                        # map (\<lambda>f. '' - '' @ path_relative (cwd w) f) created))"
proof -
  have p: "parse_loop [''--count'', ''0''] 0 (DEFAULTS w) w = Returned (DEFAULTS w) w"
    by (simp add: parse_loop_all value_flags_def parseInt_examples or_else_def)
  have e: "parse_loop [] 0 (DEFAULTS w) w = Returned (DEFAULTS w) w"
    by (simp add: parse_loop_all)
  have s: "count (sanity (DEFAULTS w)) = Num 20"
    "outDir (sanity (DEFAULTS w)) = outDir (DEFAULTS w)"
    by (simp_all add: sanity_def DEFAULTS_def)
  have f: "finite_options (sanity (DEFAULTS w))"
    by (simp add: finite_options_def finite_number_def sanity_def DEFAULTS_def)
  have m: "main [''--count'', ''0''] w = main [] w"
    using p e by (simp add: main_def main_body_def)
  have "\<exists>created w'. main [''--count'', ''0''] w = Some (0, w')
                  \<and> length created = 20
                  \<and> stdout w'
                      = stdout w
                        @ (''Created 20 files under '' @ path_string (outDir (DEFAULTS w)))
                        # map (\<lambda>f. '' - '' @ path_relative (cwd w) f) created"
    if c: "clean (outDir (DEFAULTS w)) w"
  proof -
    from c s(2) have "clean (outDir (sanity (DEFAULTS w))) w" by simp
    from main_clean[OF p this f] obtain created w' where
      cr: "main [''--count'', ''0''] w = Some (0, w')"
        "length created = rounds (count (sanity (DEFAULTS w)))"
        "stdout w'
           = stdout w
             @ (''Created '' @ numToString (Num (of_nat (length created))) @ '' files under ''
                @ path_string (outDir (sanity (DEFAULTS w))))
             # map (\<lambda>f. '' - '' @ path_relative (cwd w) f) created"
      by blast
    from cr(2) s(1) have l: "length created = 20" by simp
    with cr(3) s(2) have "stdout w'
           = stdout w
             @ (''Created 20 files under '' @ path_string (outDir (DEFAULTS w)))
             # map (\<lambda>f. '' - '' @ path_relative (cwd w) f) created"
      by (simp add: numToString_20)
    with cr(1) l show ?thesis by blast
  qed
  with p s(1) m show ?thesis by blast
qed

theorem count_zero_keeps_default_count_witness:
  "clean (outDir (DEFAULTS sample_world)) sample_world
   \<and> (\<exists>created w'. main [''--count'', ''0''] sample_world = Some (0, w')
         \<and> length created = 20
         \<and> stdout w'
             = ''Created 20 files under /work/dist''
               # map (\<lambda>f. '' - '' @ path_relative [''work''] f) created)"
proof -
  have o: "outDir (DEFAULTS sample_world) = [''work'', ''dist'']"
    by (simp add: DEFAULTS_def sample_world_def path_resolve_dist)
  have c: "clean (outDir (DEFAULTS sample_world)) sample_world"
    using clean_sample by (simp add: o)
  have s: "stdout sample_world = []" "cwd sample_world = [''work'']"
    "path_string [''work'', ''dist''] = ''/work/dist''"
    by (simp_all add: sample_world_def path_string_def)
  from count_zero_keeps_default_count
    [of sample_world, THEN conjunct2, THEN conjunct2, THEN conjunct2] c
  show ?thesis by (simp add: o s)
qed

text \<open>
  Claim C2. When the token after \<^verbatim>\<open>--count\<close>, \<^verbatim>\<open>--min\<close>, \<^verbatim>\<open>--max\<close> or
  \<^verbatim>\<open>--depth\<close> does not parse as an integer (\<^verbatim>\<open>parseInt\<close> gives \<open>NaN\<close>), the loop goes on
  behind that token with the options as they were: the option keeps its current value and
  the run proceeds. In particular \<^verbatim>\<open>--count abc\<close> resolves to the defaults, count 20, and
  the whole run is the run without arguments.
\<close>

theorem non_numeric_value_keeps_option:
  "(i + 1 < length argv \<and> argv ! i \<in> set numeric_flags \<and> parseInt (argv ! (i + 1)) = NaN
      \<longrightarrow> parse_loop argv i opts w = parse_loop argv (i + 2) opts w)
   \<and> parse_loop [''--count'', ''abc''] 0 (DEFAULTS w) w = Returned (DEFAULTS w) w
   \<and> count (sanity (DEFAULTS w)) = Num 20
   \<and> main_body [''--count'', ''abc''] w = main_body [] w"
proof -
  have "parse_loop argv i opts w = parse_loop argv (i + 2) opts w"
    if "i + 1 < length argv" "argv ! i \<in> set numeric_flags" "parseInt (argv ! (i + 1)) = NaN"
    using that by (intro numeric_flag_step) (simp_all add: or_else_def)
  moreover have "parse_loop [''--count'', ''abc''] 0 (DEFAULTS w) w = Returned (DEFAULTS w) w"
    by (simp add: parse_loop_all value_flags_def parseInt_examples or_else_def)
  moreover have "parse_loop [] 0 (DEFAULTS w) w = Returned (DEFAULTS w) w"
    by (simp add: parse_loop_all)
  moreover have "count (sanity (DEFAULTS w)) = Num 20"
    by (simp add: sanity_def DEFAULTS_def)
  ultimately show ?thesis by (simp add: main_body_def)
qed

theorem non_numeric_value_keeps_option_witness:
  "0 + 1 < length [''--depth'', ''x7'', ''--count'', ''3'']
   \<and> [''--depth'', ''x7'', ''--count'', ''3''] ! 0 \<in> set numeric_flags
   \<and> parseInt ([''--depth'', ''x7'', ''--count'', ''3''] ! (0 + 1)) = NaN
   \<and> parse_loop [''--depth'', ''x7'', ''--count'', ''3''] 0 (DEFAULTS sample_world) sample_world
       = parse_loop [''--depth'', ''x7'', ''--count'', ''3''] (0 + 2) (DEFAULTS sample_world) sample_world
   \<and> parse_loop [''--depth'', ''x7'', ''--count'', ''3''] 0 (DEFAULTS sample_world) sample_world
       = Returned ((DEFAULTS sample_world)\<lparr>count := Num 3\<rparr>) sample_world"
proof -
  have h: "0 + 1 < length [''--depth'', ''x7'', ''--count'', ''3'']"
    "[''--depth'', ''x7'', ''--count'', ''3''] ! 0 \<in> set numeric_flags"
    "parseInt ([''--depth'', ''x7'', ''--count'', ''3''] ! (0 + 1)) = NaN"
    by (simp_all add: numeric_flags_def parseInt_examples)
  from non_numeric_value_keeps_option
    [of 0 "[''--depth'', ''x7'', ''--count'', ''3'']" "DEFAULTS sample_world" sample_world] h
  have step: "parse_loop [''--depth'', ''x7'', ''--count'', ''3''] 0 (DEFAULTS sample_world)
       sample_world
     = parse_loop [''--depth'', ''x7'', ''--count'', ''3''] (0 + 2) (DEFAULTS sample_world)
       sample_world"
    by blast
  have rest: "parse_loop [''--depth'', ''x7'', ''--count'', ''3''] (0 + 2) (DEFAULTS sample_world)
       sample_world
     = Returned ((DEFAULTS sample_world)\<lparr>count := Num 3\<rparr>) sample_world"
    by (simp add: parse_loop_list value_flags_def parseInt_examples or_else_def)
  from h step rest show ?thesis by simp
qed

text \<open>
  Claim C3, amended. When the effective maximum length is not \<open>Infinity\<close>, the claim
  holds. For integer bounds \<open>a \<le> b\<close> the file generator returns a draft whose chosen
  length \<open>n\<close> is an integer with \<open>a \<le> n \<le> b\<close>, and the raw string has exactly \<open>n\<close>
  characters, all of them ASCII letters. \<open>main\<close> calls the generator with the lengths that
  \<open>sanity\<close> returns for the parsed options; when that maximum is not \<open>Infinity\<close>, both
  are integers in order, the chosen length is within them and the raw string has exactly
  that length. Whatever the bounds, a draft that the generator returns has a chosen length
  other than \<open>Infinity\<close> and a raw string of letters, one for each round of the loop up to
  that length (none for \<open>NaN\<close>).
\<close>

theorem raw_content_length_and_alphabet:
  "(valid_random w \<and> a \<le> b
      \<longrightarrow> (\<exists>d w' n. draftFile (Num (of_int a)) (Num (of_int b)) w = Some (d, w')
            \<and> d_len d = Num (of_int n) \<and> a \<le> n \<and> n \<le> b
            \<and> length (d_content d) = nat n \<and> set (d_content d) \<subseteq> set letters))
   \<and> (valid_random w \<and> parse_loop argv 0 (DEFAULTS v) v = Returned parsed v'
        \<and> maxLen (sanity parsed) \<noteq> PInf
      \<longrightarrow> (\<exists>d w' n. draftFile (minLen (sanity parsed)) (maxLen (sanity parsed)) w = Some (d, w')
            \<and> d_len d = Num (of_int n)
            \<and> js_le (minLen (sanity parsed)) (d_len d) \<and> js_le (d_len d) (maxLen (sanity parsed))
            \<and> int (length (d_content d)) = n \<and> set (d_content d) \<subseteq> set letters))
   \<and> (valid_random w \<and> draftFile lo hi w = Some (e, u)
      \<longrightarrow> length (d_content e) = rounds (d_len e) \<and> d_len e \<noteq> PInf
          \<and> set (d_content e) \<subseteq> set letters)"
proof (intro conjI impI)
  assume "valid_random w \<and> a \<le> b"
  then have v: "valid_random w" and le: "a \<le> b" by simp_all
  from draftFile_range[OF v le]
  show "\<exists>d w' n. draftFile (Num (of_int a)) (Num (of_int b)) w = Some (d, w')
            \<and> d_len d = Num (of_int n) \<and> a \<le> n \<and> n \<le> b
            \<and> length (d_content d) = nat n \<and> set (d_content d) \<subseteq> set letters" .
next
  assume h: "valid_random w \<and> parse_loop argv 0 (DEFAULTS v) v = Returned parsed v'
        \<and> maxLen (sanity parsed) \<noteq> PInf"
  then have v: "valid_random w" and p: "parse_loop argv 0 (DEFAULTS v) v = Returned parsed v'"
    and m: "maxLen (sanity parsed) \<noteq> PInf"
    by simp_all
  from parse_loop_parsed[OF p]
  have "parsed_number (minLen parsed)" "parsed_number (maxLen parsed)"
    by (simp_all add: parsed_options_def)
  from sanity_parsed[OF this m] obtain a' b' where
    ab: "minLen (sanity parsed) = Num (of_int a')" "maxLen (sanity parsed) = Num (of_int b')"
      "0 \<le> a'" "a' \<le> b'"
    by blast
  from draftFile_range[OF v ab(4)] obtain d w' n where
    d: "draftFile (Num (of_int a')) (Num (of_int b')) w = Some (d, w')"
      "d_len d = Num (of_int n)" "a' \<le> n" "n \<le> b'"
      "length (d_content d) = nat n" "set (d_content d) \<subseteq> set letters"
    by blast
  have "js_le (Num (of_int a')) (Num (of_int n))" "js_le (Num (of_int n)) (Num (of_int b'))"
    using d(3,4) by (auto simp: js_le_def)
  moreover have "int (length (d_content d)) = n" using d(3,5) ab(3) by simp
  ultimately
  show "\<exists>d w' n. draftFile (minLen (sanity parsed)) (maxLen (sanity parsed)) w = Some (d, w')
            \<and> d_len d = Num (of_int n)
            \<and> js_le (minLen (sanity parsed)) (d_len d) \<and> js_le (d_len d) (maxLen (sanity parsed))
            \<and> int (length (d_content d)) = n \<and> set (d_content d) \<subseteq> set letters"
    using d(1,2,6) unfolding ab by (intro exI[of _ d] exI[of _ w'] exI[of _ n]) simp
next
  assume "valid_random w \<and> draftFile lo hi w = Some (e, u)"
  then have v: "valid_random w" and d: "draftFile lo hi w = Some (e, u)" by simp_all
  from draftFile_content[OF d] v
  show "length (d_content e) = rounds (d_len e)" "d_len e \<noteq> PInf"
    "set (d_content e) \<subseteq> set letters"
    by simp_all
qed

theorem raw_content_length_and_alphabet_witness:
  "valid_random sample_world \<and> (1::int) \<le> 4
   \<and> (\<exists>d w'. draftFile (Num (of_int 1)) (Num (of_int 4)) sample_world = Some (d, w')
         \<and> d_len d = Num 3 \<and> d_content d = ''AAA''
         \<and> length (d_content d) = rounds (d_len d) \<and> d_len d \<noteq> PInf
         \<and> set (d_content d) \<subseteq> set letters)
   \<and> parse_loop [''--min'', ''-5'', ''--max'', ''1''] 0 (DEFAULTS sample_world) sample_world
       = Returned ((DEFAULTS sample_world)\<lparr>minLen := Num (- 5), maxLen := Num 1\<rparr>) sample_world
   \<and> minLen (sanity ((DEFAULTS sample_world)\<lparr>minLen := Num (- 5), maxLen := Num 1\<rparr>)) = Num 0
   \<and> maxLen (sanity ((DEFAULTS sample_world)\<lparr>minLen := Num (- 5), maxLen := Num 1\<rparr>)) = Num 1
   \<and> maxLen (sanity ((DEFAULTS sample_world)\<lparr>minLen := Num (- 5), maxLen := Num 1\<rparr>)) \<noteq> PInf
   \<and> (\<exists>d w' n. draftFile (Num 0) (Num 1) sample_world = Some (d, w')
         \<and> d_len d = Num (of_int n) \<and> js_le (Num 0) (d_len d) \<and> js_le (d_len d) (Num 1)
         \<and> int (length (d_content d)) = n \<and> set (d_content d) \<subseteq> set letters
         \<and> d_content d = ''A'')"
proof -
  let ?p = "(DEFAULTS sample_world)\<lparr>minLen := Num (- 5), maxLen := Num 1\<rparr>"
  have p: "parse_loop [''--min'', ''-5'', ''--max'', ''1''] 0 (DEFAULTS sample_world) sample_world
       = Returned ?p sample_world"
    by (simp add: parse_loop_all value_flags_def parseInt_examples or_else_def)
  have s: "minLen (sanity ?p) = Num 0" "maxLen (sanity ?p) = Num 1" "maxLen (sanity ?p) \<noteq> PInf"
    by (simp_all add: sanity_def DEFAULTS_def)
  have c: "map_option (\<lambda>(d, v). (d_len d, d_content d))
             (draftFile (Num (of_int 1)) (Num (of_int 4)) sample_world) = Some (Num 3, ''AAA'')"
    "map_option (\<lambda>(d, v). d_content d) (draftFile (Num 0) (Num 1) sample_world) = Some ''A''"
    by code_simp+
  from c(1) obtain d1 w1 where
    d1: "draftFile (Num (of_int 1)) (Num (of_int 4)) sample_world = Some (d1, w1)"
      "d_len d1 = Num 3" "d_content d1 = ''AAA''"
    by (cases "draftFile (Num (of_int 1)) (Num (of_int 4)) sample_world") auto
  note t = raw_content_length_and_alphabet
    [of sample_world 1 4 "[''--min'', ''-5'', ''--max'', ''1'']" sample_world ?p sample_world
        "Num (of_int 1)" "Num (of_int 4)" d1 w1]
  from t[THEN conjunct2, THEN conjunct2] valid_random_sample d1(1)
  have g: "length (d_content d1) = rounds (d_len d1) \<and> d_len d1 \<noteq> PInf
          \<and> set (d_content d1) \<subseteq> set letters"
    by simp
  have first: "\<exists>d w'. draftFile (Num (of_int 1)) (Num (of_int 4)) sample_world = Some (d, w')
         \<and> d_len d = Num 3 \<and> d_content d = ''AAA''
         \<and> length (d_content d) = rounds (d_len d) \<and> d_len d \<noteq> PInf
         \<and> set (d_content d) \<subseteq> set letters"
    using d1 g by (intro exI[of _ d1] exI[of _ w1]) simp
  from t[THEN conjunct2, THEN conjunct1] valid_random_sample p s(3)
  obtain d2 w2 n where
    d2: "draftFile (minLen (sanity ?p)) (maxLen (sanity ?p)) sample_world = Some (d2, w2)"
      "d_len d2 = Num (of_int n)" "js_le (minLen (sanity ?p)) (d_len d2)"
      "js_le (d_len d2) (maxLen (sanity ?p))" "int (length (d_content d2)) = n"
      "set (d_content d2) \<subseteq> set letters"
    by blast
  have "d_content d2 = ''A''" using c(2) d2(1) unfolding s by simp
  with d2 have second: "\<exists>d w' n. draftFile (Num 0) (Num 1) sample_world = Some (d, w')
         \<and> d_len d = Num (of_int n) \<and> js_le (Num 0) (d_len d) \<and> js_le (d_len d) (Num 1)
         \<and> int (length (d_content d)) = n \<and> set (d_content d) \<subseteq> set letters
         \<and> d_content d = ''A''"
    unfolding s by (intro exI[of _ d2] exI[of _ w2] exI[of _ n]) simp
  show ?thesis
    apply (intro conjI)
           apply (rule valid_random_sample)
          apply simp
         apply (rule first)
        apply (rule p)
       apply (rule s(1))
      apply (rule s(2))
     apply (rule s(3))
    apply (rule second)
    done
qed

text \<open>
  Claim C3 as stated fails for a minimum length beyond the range of a double:
  \<^verbatim>\<open>--min\<close> followed by 400 nines parses to \<open>Infinity\<close>, the sanity step raises the
  maximum to \<open>Infinity\<close> as well (so the minimum is at most the maximum), the chosen length
  is \<open>NaN\<close>, which is not within the range, and the raw string is empty. The file is
  written all the same.
\<close>

theorem infinite_length_counterexample:
  "parse_loop [''--count'', ''1'', ''--min'', replicate 400 (CHR ''9'')] 0 (DEFAULTS sample_world)
       sample_world
     = Returned ((DEFAULTS sample_world)\<lparr>count := Num 1, minLen := PInf\<rparr>) sample_world
   \<and> minLen (sanity ((DEFAULTS sample_world)\<lparr>count := Num 1, minLen := PInf\<rparr>)) = PInf
   \<and> maxLen (sanity ((DEFAULTS sample_world)\<lparr>count := Num 1, minLen := PInf\<rparr>)) = PInf
   \<and> js_le PInf PInf
   \<and> valid_random sample_world
   \<and> map_option (\<lambda>(d, v). (d_len d, d_content d)) (draftFile PInf PInf sample_world)
       = Some (NaN, [])
   \<and> \<not> js_le PInf NaN \<and> \<not> js_le NaN PInf
   \<and> map_option (\<lambda>(c, v). (c, stdout v, calls v))
        (main [''--count'', ''1'', ''--min'', replicate 400 (CHR ''9'')] sample_world)
       = Some (0,
           [''Created 1 files under /work/dist'', '' - dist/ababab/ababab/file_abababab.css''],
           [Mkdir [''work'', ''dist''], Mkdir [''work'', ''dist'', ''ababab'', ''ababab''],
            WriteFile [''work'', ''dist'', ''ababab'', ''ababab'', ''file_abababab.css'']
              (''/* ababab */\<newline>body::after { content: '' @ [CHR 0x22] @ [CHR 0x22]
               @ ''; }\<newline>'')])"
proof -
  let ?p = "(DEFAULTS sample_world)\<lparr>count := Num 1, minLen := PInf\<rparr>"
  have p: "parse_loop [''--count'', ''1'', ''--min'', replicate 400 (CHR ''9'')] 0
             (DEFAULTS sample_world) sample_world = Returned ?p sample_world"
    by (simp add: parse_loop_all value_flags_def parseInt_examples parseInt_400_nines
        or_else_def)
  have s: "minLen (sanity ?p) = PInf" "maxLen (sanity ?p) = PInf"
    by (simp_all add: sanity_def DEFAULTS_def)
  have j: "js_le PInf PInf" "\<not> js_le PInf NaN" "\<not> js_le NaN PInf"
    by (simp_all add: js_le_def)
  have d: "map_option (\<lambda>(d, v). (d_len d, d_content d)) (draftFile PInf PInf sample_world)
       = Some (NaN, [])"
    by code_simp
  have m: "map_option (\<lambda>(c, v). (c, stdout v, calls v))
        (main [''--count'', ''1'', ''--min'', replicate 400 (CHR ''9'')] sample_world)
       = Some (0,
           [''Created 1 files under /work/dist'', '' - dist/ababab/ababab/file_abababab.css''],
           [Mkdir [''work'', ''dist''], Mkdir [''work'', ''dist'', ''ababab'', ''ababab''],
            WriteFile [''work'', ''dist'', ''ababab'', ''ababab'', ''file_abababab.css'']
              (''/* ababab */\<newline>body::after { content: '' @ [CHR 0x22] @ [CHR 0x22]
               @ ''; }\<newline>'')])"
    by code_simp
  show ?thesis
    apply (intro conjI)
            apply (rule p)
           apply (rule s(1))
          apply (rule s(2))
         apply (rule j(1))
        apply (rule valid_random_sample)
       apply (rule d)
      apply (rule j(2))
     apply (rule j(3))
    apply (rule m)
    done
qed

text \<open>
  Claim C4, amended. For every maximum depth other than \<open>Infinity\<close> that the argument loop
  can store (every integer, also below 1, and \<open>-Infinity\<close>): when the path generator
  returns a directory for the base and the file generator then returns a file in it, the
  file's path is the base, then \<open>parts\<close>, then the file name, where the number of directory
  segments \<open>parts\<close> lies between 1 and \<^verbatim>\<open>Math.max(1, maxDepth)\<close>. The maximum depth that
  \<open>main\<close> passes is of this kind unless it is \<open>Infinity\<close>.
\<close>

theorem directory_depth_in_range:
  "(valid_random w \<and> (maxD = NInf \<or> maxD = Num (of_int m))
      \<and> makeRandomDir base maxD w = Some (Returned dir w1)
      \<and> makeRandomFile dir lo hi w1 = Some (Returned file w2)
    \<longrightarrow> (\<exists>parts name. dir = base @ parts \<and> file = base @ parts @ [name]
          \<and> 1 \<le> length parts
          \<and> js_le (Num (of_nat (length parts))) (js_max (Num 1) maxD)
          \<and> (maxD = NInf \<longrightarrow> length parts = 1)
          \<and> (maxD = Num (of_int m) \<longrightarrow> int (length parts) \<le> max 1 m)))
   \<and> (parse_loop argv 0 (DEFAULTS v) v = Returned parsed v'
        \<and> maxDepth (sanity parsed) \<noteq> PInf
      \<longrightarrow> maxDepth (sanity parsed) = NInf \<or> (\<exists>k. maxDepth (sanity parsed) = Num (of_int k)))"
proof (intro conjI impI)
  assume h: "valid_random w \<and> (maxD = NInf \<or> maxD = Num (of_int m))
      \<and> makeRandomDir base maxD w = Some (Returned dir w1)
      \<and> makeRandomFile dir lo hi w1 = Some (Returned file w2)"
  then have v: "valid_random w" and k: "maxD = NInf \<or> maxD = Num (of_int m)"
    and d: "makeRandomDir base maxD w = Some (Returned dir w1)"
    and f: "makeRandomFile dir lo hi w1 = Some (Returned file w2)"
    by simp_all
  from makeRandomDir_depth[OF d v k] obtain parts where
    parts: "dir = base @ parts" "1 \<le> length parts"
      "js_le (Num (of_nat (length parts))) (js_max (Num 1) maxD)"
    by blast
  from makeRandomFile_Some(1)[OF f] obtain name where name: "file = dir @ [name]"
    by blast
  have a: "length parts = 1" if "maxD = NInf"
    using parts(2,3) that by (auto simp: js_max_one js_le_def)
  have b: "int (length parts) \<le> max 1 m" if "maxD = Num (of_int m)"
    using parts(3) that by (auto simp: js_max_one js_le_def)
  from parts name a b
  show "\<exists>parts name. dir = base @ parts \<and> file = base @ parts @ [name]
          \<and> 1 \<le> length parts
          \<and> js_le (Num (of_nat (length parts))) (js_max (Num 1) maxD)
          \<and> (maxD = NInf \<longrightarrow> length parts = 1)
          \<and> (maxD = Num (of_int m) \<longrightarrow> int (length parts) \<le> max 1 m)"
    by (intro exI[of _ parts] exI[of _ name]) simp
next
  assume "parse_loop argv 0 (DEFAULTS v) v = Returned parsed v'
        \<and> maxDepth (sanity parsed) \<noteq> PInf"
  then have p: "parse_loop argv 0 (DEFAULTS v) v = Returned parsed v'"
    and n: "maxDepth (sanity parsed) \<noteq> PInf"
    by simp_all
  from parse_loop_parsed[OF p] have "parsed_number (maxDepth (sanity parsed))"
    by (simp add: parsed_options_def sanity_fields)
  with n show "maxDepth (sanity parsed) = NInf \<or> (\<exists>k. maxDepth (sanity parsed) = Num (of_int k))"
    by (simp add: parsed_number_def)
qed

theorem directory_depth_in_range_witness:
  "valid_random sample_world
   \<and> parse_loop [''--depth'', ''-3''] 0 (DEFAULTS sample_world) sample_world
       = Returned ((DEFAULTS sample_world)\<lparr>maxDepth := Num (- 3)\<rparr>) sample_world
   \<and> maxDepth (sanity ((DEFAULTS sample_world)\<lparr>maxDepth := Num (- 3)\<rparr>)) \<noteq> PInf
   \<and> maxDepth (sanity ((DEFAULTS sample_world)\<lparr>maxDepth := Num (- 3)\<rparr>)) = Num (- 3)
   \<and> (\<exists>w1 w2. makeRandomDir [''work'', ''dist''] (Num (- 3)) sample_world
                 = Some (Returned [''work'', ''dist'', ''ababab''] w1)
         \<and> makeRandomFile [''work'', ''dist'', ''ababab''] (Num 1) (Num 2) w1
             = Some (Returned [''work'', ''dist'', ''ababab'', ''file_abababab.css''] w2)
         \<and> (\<exists>parts name. [''work'', ''dist'', ''ababab''] = [''work'', ''dist''] @ parts
               \<and> [''work'', ''dist'', ''ababab'', ''file_abababab.css'']
                   = [''work'', ''dist''] @ parts @ [name]
               \<and> 1 \<le> length parts \<and> int (length parts) \<le> max 1 (- 3)))"
proof -
  let ?p = "(DEFAULTS sample_world)\<lparr>maxDepth := Num (- 3)\<rparr>"
  let ?dir = "[''work'', ''dist'', ''ababab'']"
  let ?file = "[''work'', ''dist'', ''ababab'', ''file_abababab.css'']"
  have p: "parse_loop [''--depth'', ''-3''] 0 (DEFAULTS sample_world) sample_world
       = Returned ?p sample_world"
    by (simp add: parse_loop_all value_flags_def parseInt_examples or_else_def)
  have s: "maxDepth (sanity ?p) \<noteq> PInf" "maxDepth (sanity ?p) = Num (- 3)"
    by (simp_all add: sanity_fields)
  have r: "map_option returned
       (case makeRandomDir [''work'', ''dist''] (Num (- 3)) sample_world of
          Some (Returned dir w1) \<Rightarrow> makeRandomFile dir (Num 1) (Num 2) w1
        | _ \<Rightarrow> None) = Some (Some ?file)"
    "map_option returned (makeRandomDir [''work'', ''dist''] (Num (- 3)) sample_world)
       = Some (Some ?dir)"
    by code_simp+
  from returned_option[OF r(2)] obtain w1 where
    d: "makeRandomDir [''work'', ''dist''] (Num (- 3)) sample_world
          = Some (Returned ?dir w1)"
    by blast
  from r(1) have "map_option returned (makeRandomFile ?dir (Num 1) (Num 2) w1)
       = Some (Some ?file)"
    by (simp add: d)
  from returned_option[OF this] obtain w2 where
    f: "makeRandomFile ?dir (Num 1) (Num 2) w1 = Some (Returned ?file w2)"
    by blast
  note t = directory_depth_in_range
    [of sample_world "Num (- 3)" "- 3" "[''work'', ''dist'']" ?dir w1 "Num 1" "Num 2"
        ?file w2 "[''--depth'', ''-3'']" sample_world ?p sample_world]
  from t[THEN conjunct1] valid_random_sample d f
  have "\<exists>parts name. ?dir = [''work'', ''dist''] @ parts
               \<and> ?file = [''work'', ''dist''] @ parts @ [name]
               \<and> 1 \<le> length parts \<and> int (length parts) \<le> max 1 (- 3)"
    by simp
  with d f have e: "\<exists>w1 w2. makeRandomDir [''work'', ''dist''] (Num (- 3)) sample_world
                 = Some (Returned ?dir w1)
         \<and> makeRandomFile ?dir (Num 1) (Num 2) w1 = Some (Returned ?file w2)
         \<and> (\<exists>parts name. ?dir = [''work'', ''dist''] @ parts
               \<and> ?file = [''work'', ''dist''] @ parts @ [name]
               \<and> 1 \<le> length parts \<and> int (length parts) \<le> max 1 (- 3))"
    by (intro exI[of _ w1] exI[of _ w2]) simp
  show ?thesis
    apply (intro conjI)
        apply (rule valid_random_sample)
       apply (rule p)
      apply (rule s(1))
     apply (rule s(2))
    apply (rule e)
    done
qed

text \<open>
  Claim C4 as stated fails for a maximum depth beyond the range of a double:
  \<^verbatim>\<open>--depth\<close> followed by 400 nines parses to \<open>Infinity\<close>; when \<^verbatim>\<open>Math.random()\<close> returns
  0 the chosen depth is \<open>NaN\<close>, no segment is added, the path generator returns the base
  itself, and the file is written into the base: no directory segment lies between the
  base and the file.
\<close>

theorem infinite_depth_counterexample:
  "parse_loop [''--count'', ''1'', ''--min'', ''1'', ''--max'', ''1'', ''--depth'',
       replicate 400 (CHR ''9'')] 0 (DEFAULTS (constant_world 0)) (constant_world 0)
     = Returned ((DEFAULTS (constant_world 0))
         \<lparr>count := Num 1, minLen := Num 1, maxLen := Num 1, maxDepth := PInf\<rparr>) (constant_world 0)
   \<and> maxDepth (sanity ((DEFAULTS (constant_world 0))
         \<lparr>count := Num 1, minLen := Num 1, maxLen := Num 1, maxDepth := PInf\<rparr>)) = PInf
   \<and> valid_random (constant_world 0)
   \<and> fst (rndInt (Num 1) (js_max (Num 1) PInf) (constant_world 0)) = NaN
   \<and> map_option returned (makeRandomDir [''work'', ''dist''] PInf (constant_world 0))
       = Some (Some [''work'', ''dist''])
   \<and> map_option (\<lambda>(c, v). (c, stdout v, calls v))
        (main [''--count'', ''1'', ''--min'', ''1'', ''--max'', ''1'', ''--depth'',
           replicate 400 (CHR ''9'')] (constant_world 0))
       = Some (0,
           [''Created 1 files under /work/dist'', '' - dist/file_abababab.html''],
           [Mkdir [''work'', ''dist''], Mkdir [''work'', ''dist''],
            WriteFile [''work'', ''dist'', ''file_abababab.html'']
              (''<!doctype html>\<newline><html>\<newline><head>\<newline>  <meta charset=''
               @ [CHR 0x22] @ ''utf-8'' @ [CHR 0x22]
               @ ''>\<newline>  <title>ababab</title>\<newline></head>\<newline><body>\<newline>a\<newline></body>\<newline></html>\<newline>'')])
   \<and> butlast [''work'', ''dist'', ''file_abababab.html''] = [''work'', ''dist'']"
proof -
  let ?p = "(DEFAULTS (constant_world 0))
         \<lparr>count := Num 1, minLen := Num 1, maxLen := Num 1, maxDepth := PInf\<rparr>"
  have p: "parse_loop [''--count'', ''1'', ''--min'', ''1'', ''--max'', ''1'', ''--depth'',
       replicate 400 (CHR ''9'')] 0 (DEFAULTS (constant_world 0)) (constant_world 0)
     = Returned ?p (constant_world 0)"
    by (simp add: parse_loop_all value_flags_def parseInt_examples parseInt_400_nines
        or_else_def)
  have s: "maxDepth (sanity ?p) = PInf"
    by (simp add: sanity_fields)
  have v: "valid_random (constant_world 0)"
    by (simp add: valid_random_constant)
  have c: "fst (rndInt (Num 1) (js_max (Num 1) PInf) (constant_world 0)) = NaN"
    "map_option returned (makeRandomDir [''work'', ''dist''] PInf (constant_world 0))
       = Some (Some [''work'', ''dist''])"
    "map_option (\<lambda>(c, v). (c, stdout v, calls v))
        (main [''--count'', ''1'', ''--min'', ''1'', ''--max'', ''1'', ''--depth'',
           replicate 400 (CHR ''9'')] (constant_world 0))
       = Some (0,
           [''Created 1 files under /work/dist'', '' - dist/file_abababab.html''],
           [Mkdir [''work'', ''dist''], Mkdir [''work'', ''dist''],
            WriteFile [''work'', ''dist'', ''file_abababab.html'']
              (''<!doctype html>\<newline><html>\<newline><head>\<newline>  <meta charset=''
               @ [CHR 0x22] @ ''utf-8'' @ [CHR 0x22]
               @ ''>\<newline>  <title>ababab</title>\<newline></head>\<newline><body>\<newline>a\<newline></body>\<newline></html>\<newline>'')])"
    by code_simp+
  show ?thesis
    apply (intro conjI)
          apply (rule p)
         apply (rule s)
        apply (rule v)
       apply (rule c(1))
      apply (rule c(2))
     apply (rule c(3))
    apply simp
    done
qed

text \<open>
  Claim C5. After the arguments are parsed, \<open>sanity\<close> fixes the length range: a negative
  minimum length becomes 0, and a maximum length below the (possibly clamped) minimum
  \<^verbatim>\<open>Math.max(0, minLen)\<close> becomes that minimum. This holds for every parsed
  configuration, also for infinite lengths.
\<close>

theorem sanity_clamps_lengths:
  "(js_less (minLen opts) (Num 0) \<longrightarrow> minLen (sanity opts) = Num 0)
   \<and> (js_less (maxLen opts) (js_max (Num 0) (minLen opts))
        \<longrightarrow> maxLen (sanity opts) = minLen (sanity opts))
   \<and> minLen (sanity opts) = js_max (Num 0) (minLen opts)"
proof -
  have m: "minLen (sanity opts) = js_max (Num 0) (minLen opts)"
    by (cases "minLen opts") (auto simp: sanity_fields(1) js_max_def)
  then show ?thesis by (simp add: sanity_fields)
qed

theorem sanity_clamps_lengths_witness:
  "parse_loop [''--min'', ''-5'', ''--max'', ''-10''] 0 (DEFAULTS sample_world) sample_world
     = Returned ((DEFAULTS sample_world)\<lparr>minLen := Num (- 5), maxLen := Num (- 10)\<rparr>)
         sample_world
   \<and> js_less (minLen ((DEFAULTS sample_world)\<lparr>minLen := Num (- 5), maxLen := Num (- 10)\<rparr>))
        (Num 0)
   \<and> minLen (sanity ((DEFAULTS sample_world)\<lparr>minLen := Num (- 5), maxLen := Num (- 10)\<rparr>))
       = Num 0
   \<and> js_less (maxLen ((DEFAULTS sample_world)\<lparr>minLen := Num (- 5), maxLen := Num (- 10)\<rparr>))
        (js_max (Num 0)
           (minLen ((DEFAULTS sample_world)\<lparr>minLen := Num (- 5), maxLen := Num (- 10)\<rparr>)))
   \<and> maxLen (sanity ((DEFAULTS sample_world)\<lparr>minLen := Num (- 5), maxLen := Num (- 10)\<rparr>))
       = Num 0"
  using sanity_clamps_lengths
    [of "(DEFAULTS sample_world)\<lparr>minLen := Num (- 5), maxLen := Num (- 10)\<rparr>"]
  by (simp add: parse_loop_all value_flags_def parseInt_examples or_else_def DEFAULTS_def
      js_max_def)



text \<open>
  Claim C7. The file generator writes \<open>finalContent\<close> to the path it returns. The name of
  that file ends with one of the four extensions, and the extension decides the format:
  \<^verbatim>\<open>.html\<close> is the document shell around the whole raw content, \<^verbatim>\<open>.js\<close> the
  self-invoking function whose string literal is the whole raw content, \<^verbatim>\<open>.css\<close> the
  \<^verbatim>\<open>body::after\<close> rule whose \<^verbatim>\<open>content\<close> holds the first 30 characters of the raw
  content, and \<^verbatim>\<open>.txt\<close> the raw content itself.
\<close>

theorem written_content_follows_extension:
  "valid_random w \<and> makeRandomFile dir lo hi w = Some (Returned file w')
   \<longrightarrow> (\<exists>d w1. draftFile lo hi w = Some (d, w1)
       \<and> files w' file = Some (File (d_final d))
        \<and> (suffix ''.html'' (last file) \<or> suffix ''.js'' (last file)
             \<or> suffix ''.css'' (last file) \<or> suffix ''.txt'' (last file))
        \<and> (suffix ''.html'' (last file) \<longrightarrow>
             (\<exists>t. length t = 6 \<and> d_final d =
                ''<!doctype html>\<newline><html>\<newline><head>\<newline>  <meta charset='' @ [CHR 0x22]
                @ ''utf-8'' @ [CHR 0x22] @ ''>\<newline>  <title>'' @ t
                @ ''</title>\<newline></head>\<newline><body>\<newline>'' @ d_content d
                @ ''\<newline></body>\<newline></html>\<newline>''))
        \<and> (suffix ''.js'' (last file) \<longrightarrow>
             (\<exists>t. length t = 6 \<and> d_final d =
                ''// '' @ t @ ''\<newline>(function(){\<newline>  const s = '' @ [CHR 0x22] @ d_content d
                @ [CHR 0x22]
                @ '';\<newline>  // random content\<newline>  return s.length;\<newline>})();\<newline>''))
        \<and> (suffix ''.css'' (last file) \<longrightarrow>
             (\<exists>t. length t = 6 \<and> d_final d =
                ''/* '' @ t @ '' */\<newline>body::after { content: '' @ [CHR 0x22]
                @ take 30 (d_content d) @ [CHR 0x22] @ ''; }\<newline>''))
        \<and> (suffix ''.txt'' (last file) \<longrightarrow> d_final d = d_content d))"
proof (intro impI, elim conjE)
  assume v: "valid_random w"
    and r: "makeRandomFile dir lo hi w = Some (Returned file w')"
  from makeRandomFile_Some(1)[OF r] obtain d w1 where
    d: "draftFile lo hi w = Some (d, w1)" and fd: "file = dir @ [d_name d]"
    and written: "files w' file = Some (File (d_final d))"
    by auto
  have name: "last file = d_name d" using fd by simp
  from draftFile_shape[OF v d] obtain e h t where
    e: "e \<in> set exts" "d_name d = (''file_'' @ h) @ e" "length t = 6"
    and final: "d_final d =
               (if e = ''.html'' then html_shell t (d_content d)
                else if e = ''.js'' then js_shell t (d_content d)
                else if e = ''.css'' then css_shell t (d_content d)
                else d_content d)"
    by blast
  have uniq: "e' = e" if "e' \<in> set exts" "suffix e' (last file)" for e'
    using ext_suffix_unique[OF that(1) e(1), of "''file_'' @ h"] that(2) name e(2) by simp
  have own: "suffix e (last file)"
    using name e(2) by (simp add: suffix_def)
  have one: "suffix ''.html'' (last file) \<or> suffix ''.js'' (last file)
            \<or> suffix ''.css'' (last file) \<or> suffix ''.txt'' (last file)"
    using own e(1) by (auto simp: exts_def)
  have c_html: "\<exists>t. length t = 6 \<and> d_final d = html_shell t (d_content d)"
    if "suffix ''.html'' (last file)"
    using uniq[OF _ that] final e(3) by (auto simp: exts_def)
  have c_js: "\<exists>t. length t = 6 \<and> d_final d = js_shell t (d_content d)"
    if "suffix ''.js'' (last file)"
    using uniq[OF _ that] final e(3) by (auto simp: exts_def)
  have c_css: "\<exists>t. length t = 6 \<and> d_final d = css_shell t (d_content d)"
    if "suffix ''.css'' (last file)"
    using uniq[OF _ that] final e(3) by (auto simp: exts_def)
  have c_txt: "d_final d = d_content d" if "suffix ''.txt'' (last file)"
    using uniq[OF _ that] final by (auto simp: exts_def)
  from written one c_html c_js c_css c_txt
  have "files w' file = Some (File (d_final d))
       \<and> (suffix ''.html'' (last file) \<or> suffix ''.js'' (last file)
            \<or> suffix ''.css'' (last file) \<or> suffix ''.txt'' (last file))
       \<and> (suffix ''.html'' (last file) \<longrightarrow>
            (\<exists>t. length t = 6 \<and> d_final d =
               ''<!doctype html>\<newline><html>\<newline><head>\<newline>  <meta charset='' @ [CHR 0x22]
               @ ''utf-8'' @ [CHR 0x22] @ ''>\<newline>  <title>'' @ t
               @ ''</title>\<newline></head>\<newline><body>\<newline>'' @ d_content d
               @ ''\<newline></body>\<newline></html>\<newline>''))
       \<and> (suffix ''.js'' (last file) \<longrightarrow>
            (\<exists>t. length t = 6 \<and> d_final d =
               ''// '' @ t @ ''\<newline>(function(){\<newline>  const s = '' @ [CHR 0x22] @ d_content d
               @ [CHR 0x22]
               @ '';\<newline>  // random content\<newline>  return s.length;\<newline>})();\<newline>''))
       \<and> (suffix ''.css'' (last file) \<longrightarrow>
            (\<exists>t. length t = 6 \<and> d_final d =
               ''/* '' @ t @ '' */\<newline>body::after { content: '' @ [CHR 0x22]
               @ take 30 (d_content d) @ [CHR 0x22] @ ''; }\<newline>''))
       \<and> (suffix ''.txt'' (last file) \<longrightarrow> d_final d = d_content d)"
    unfolding html_shell_def js_shell_def css_shell_def by blast
  with d show "\<exists>d w1. draftFile lo hi w = Some (d, w1)
       \<and> files w' file = Some (File (d_final d))
        \<and> (suffix ''.html'' (last file) \<or> suffix ''.js'' (last file)
             \<or> suffix ''.css'' (last file) \<or> suffix ''.txt'' (last file))
        \<and> (suffix ''.html'' (last file) \<longrightarrow>
             (\<exists>t. length t = 6 \<and> d_final d =
                ''<!doctype html>\<newline><html>\<newline><head>\<newline>  <meta charset='' @ [CHR 0x22]
                @ ''utf-8'' @ [CHR 0x22] @ ''>\<newline>  <title>'' @ t
                @ ''</title>\<newline></head>\<newline><body>\<newline>'' @ d_content d
                @ ''\<newline></body>\<newline></html>\<newline>''))
        \<and> (suffix ''.js'' (last file) \<longrightarrow>
             (\<exists>t. length t = 6 \<and> d_final d =
                ''// '' @ t @ ''\<newline>(function(){\<newline>  const s = '' @ [CHR 0x22] @ d_content d
                @ [CHR 0x22]
                @ '';\<newline>  // random content\<newline>  return s.length;\<newline>})();\<newline>''))
        \<and> (suffix ''.css'' (last file) \<longrightarrow>
             (\<exists>t. length t = 6 \<and> d_final d =
                ''/* '' @ t @ '' */\<newline>body::after { content: '' @ [CHR 0x22]
                @ take 30 (d_content d) @ [CHR 0x22] @ ''; }\<newline>''))
        \<and> (suffix ''.txt'' (last file) \<longrightarrow> d_final d = d_content d)"
    by blast
qed

theorem written_content_follows_extension_witness:
  "valid_random (constant_world 0) \<and> valid_random (constant_world (1 / 4))
   \<and> valid_random (constant_world (1 / 2)) \<and> valid_random (constant_world (3 / 4))
   \<and> (\<exists>w' d w1. makeRandomFile [''work''] (Num 2) (Num 2) (constant_world 0)
              = Some (Returned [''work'', ''file_abababab.html''] w')
          \<and> draftFile (Num 2) (Num 2) (constant_world 0) = Some (d, w1)
          \<and> d_content d = ''aa''
          \<and> files w' [''work'', ''file_abababab.html''] = Some (File (d_final d))
          \<and> d_final d = ''<!doctype html>\<newline><html>\<newline><head>\<newline>  <meta charset=''
              @ [CHR 0x22] @ ''utf-8'' @ [CHR 0x22]
              @ ''>\<newline>  <title>ababab</title>\<newline></head>\<newline><body>\<newline>aa\<newline></body>\<newline></html>\<newline>'')
   \<and> (\<exists>w' d w1. makeRandomFile [''work''] (Num 2) (Num 2) (constant_world (1 / 4))
              = Some (Returned [''work'', ''file_abababab.js''] w')
          \<and> draftFile (Num 2) (Num 2) (constant_world (1 / 4)) = Some (d, w1)
          \<and> d_content d = ''nn''
          \<and> files w' [''work'', ''file_abababab.js''] = Some (File (d_final d))
          \<and> d_final d = ''// ababab\<newline>(function(){\<newline>  const s = '' @ [CHR 0x22] @ ''nn''
              @ [CHR 0x22]
              @ '';\<newline>  // random content\<newline>  return s.length;\<newline>})();\<newline>'')
   \<and> (\<exists>w' d w1. makeRandomFile [''work''] (Num 1) (Num 60) (constant_world (1 / 2))
              = Some (Returned [''work'', ''file_abababab.css''] w')
          \<and> draftFile (Num 1) (Num 60) (constant_world (1 / 2)) = Some (d, w1)
          \<and> d_content d = replicate 31 (CHR ''A'')
          \<and> files w' [''work'', ''file_abababab.css''] = Some (File (d_final d))
          \<and> d_final d = ''/* ababab */\<newline>body::after { content: '' @ [CHR 0x22]
              @ replicate 30 (CHR ''A'') @ [CHR 0x22] @ ''; }\<newline>'')
   \<and> (\<exists>w' d w1. makeRandomFile [''work''] (Num 2) (Num 2) (constant_world (3 / 4))
              = Some (Returned [''work'', ''file_abababab.txt''] w')
          \<and> draftFile (Num 2) (Num 2) (constant_world (3 / 4)) = Some (d, w1)
          \<and> d_content d = ''NN''
          \<and> files w' [''work'', ''file_abababab.txt''] = Some (File (d_final d))
          \<and> d_final d = ''NN'')"
proof -
  have v: "valid_random (constant_world 0)" "valid_random (constant_world (1 / 4))"
    "valid_random (constant_world (1 / 2))" "valid_random (constant_world (3 / 4))"
    by (simp_all add: valid_random_constant)
  have h: "(\<exists>w' d w1. makeRandomFile [''work''] (Num 2) (Num 2) (constant_world 0)
           = Some (Returned [''work'', ''file_abababab.html''] w')
       \<and> draftFile (Num 2) (Num 2) (constant_world 0) = Some (d, w1)
       \<and> d_content d = ''aa''
       \<and> files w' [''work'', ''file_abababab.html''] = Some (File (d_final d))
       \<and> d_final d = ''<!doctype html>\<newline><html>\<newline><head>\<newline>  <meta charset=''
           @ [CHR 0x22] @ ''utf-8'' @ [CHR 0x22]
           @ ''>\<newline>  <title>ababab</title>\<newline></head>\<newline><body>\<newline>aa\<newline></body>\<newline></html>\<newline>'')"
  proof -
    have r: "map_option returned (makeRandomFile [''work''] (Num 2) (Num 2) (constant_world 0))
         = Some (Some [''work'', ''file_abababab.html''])"
      by code_simp
    have c: "map_option (\<lambda>(d, v). (d_content d, d_final d))
           (draftFile (Num 2) (Num 2) (constant_world 0))
         = Some (''aa'', ''<!doctype html>\<newline><html>\<newline><head>\<newline>  <meta charset=''
           @ [CHR 0x22] @ ''utf-8'' @ [CHR 0x22]
           @ ''>\<newline>  <title>ababab</title>\<newline></head>\<newline><body>\<newline>aa\<newline></body>\<newline></html>\<newline>'')"
      by code_simp
    from returned_option[OF r] obtain w' where
      m: "makeRandomFile [''work''] (Num 2) (Num 2) (constant_world 0)
            = Some (Returned [''work'', ''file_abababab.html''] w')"
      by blast
    note t = written_content_follows_extension
      [of "constant_world 0" "[''work'']" "Num 2" "Num 2" "[''work'', ''file_abababab.html'']" w',
       rule_format, OF conjI]
    from t[OF _ m] v obtain d w1 where
      d: "draftFile (Num 2) (Num 2) (constant_world 0) = Some (d, w1)"
        "files w' [''work'', ''file_abababab.html''] = Some (File (d_final d))"
      by blast
    from c d(1) have "d_content d = ''aa''"
      "d_final d = ''<!doctype html>\<newline><html>\<newline><head>\<newline>  <meta charset=''
           @ [CHR 0x22] @ ''utf-8'' @ [CHR 0x22]
           @ ''>\<newline>  <title>ababab</title>\<newline></head>\<newline><body>\<newline>aa\<newline></body>\<newline></html>\<newline>''"
      by simp_all
    with m d show ?thesis
      by (intro exI[of _ w'] exI[of _ d] exI[of _ w1]) simp
  qed
  have j: "(\<exists>w' d w1. makeRandomFile [''work''] (Num 2) (Num 2) (constant_world (1 / 4))
           = Some (Returned [''work'', ''file_abababab.js''] w')
       \<and> draftFile (Num 2) (Num 2) (constant_world (1 / 4)) = Some (d, w1)
       \<and> d_content d = ''nn''
       \<and> files w' [''work'', ''file_abababab.js''] = Some (File (d_final d))
       \<and> d_final d = ''// ababab\<newline>(function(){\<newline>  const s = '' @ [CHR 0x22] @ ''nn''
           @ [CHR 0x22]
           @ '';\<newline>  // random content\<newline>  return s.length;\<newline>})();\<newline>'')"
  proof -
    have r: "map_option returned (makeRandomFile [''work''] (Num 2) (Num 2) (constant_world (1 / 4)))
         = Some (Some [''work'', ''file_abababab.js''])"
      by code_simp
    have c: "map_option (\<lambda>(d, v). (d_content d, d_final d))
           (draftFile (Num 2) (Num 2) (constant_world (1 / 4)))
         = Some (''nn'', ''// ababab\<newline>(function(){\<newline>  const s = '' @ [CHR 0x22] @ ''nn''
           @ [CHR 0x22]
           @ '';\<newline>  // random content\<newline>  return s.length;\<newline>})();\<newline>'')"
      by code_simp
    from returned_option[OF r] obtain w' where
      m: "makeRandomFile [''work''] (Num 2) (Num 2) (constant_world (1 / 4))
            = Some (Returned [''work'', ''file_abababab.js''] w')"
      by blast
    note t = written_content_follows_extension
      [of "constant_world (1 / 4)" "[''work'']" "Num 2" "Num 2" "[''work'', ''file_abababab.js'']" w',
       rule_format, OF conjI]
    from t[OF _ m] v obtain d w1 where
      d: "draftFile (Num 2) (Num 2) (constant_world (1 / 4)) = Some (d, w1)"
        "files w' [''work'', ''file_abababab.js''] = Some (File (d_final d))"
      by blast
    from c d(1) have "d_content d = ''nn''"
      "d_final d = ''// ababab\<newline>(function(){\<newline>  const s = '' @ [CHR 0x22] @ ''nn''
           @ [CHR 0x22]
           @ '';\<newline>  // random content\<newline>  return s.length;\<newline>})();\<newline>''"
      by simp_all
    with m d show ?thesis
      by (intro exI[of _ w'] exI[of _ d] exI[of _ w1]) simp
  qed
  have c: "(\<exists>w' d w1. makeRandomFile [''work''] (Num 1) (Num 60) (constant_world (1 / 2))
           = Some (Returned [''work'', ''file_abababab.css''] w')
       \<and> draftFile (Num 1) (Num 60) (constant_world (1 / 2)) = Some (d, w1)
       \<and> d_content d = replicate 31 (CHR ''A'')
       \<and> files w' [''work'', ''file_abababab.css''] = Some (File (d_final d))
       \<and> d_final d = ''/* ababab */\<newline>body::after { content: '' @ [CHR 0x22]
           @ replicate 30 (CHR ''A'') @ [CHR 0x22] @ ''; }\<newline>'')"
  proof -
    have r: "map_option returned (makeRandomFile [''work''] (Num 1) (Num 60) (constant_world (1 / 2)))
         = Some (Some [''work'', ''file_abababab.css''])"
      by code_simp
    have c: "map_option (\<lambda>(d, v). (d_content d, d_final d))
           (draftFile (Num 1) (Num 60) (constant_world (1 / 2)))
         = Some (replicate 31 (CHR ''A''), ''/* ababab */\<newline>body::after { content: '' @ [CHR 0x22]
           @ replicate 30 (CHR ''A'') @ [CHR 0x22] @ ''; }\<newline>'')"
      by code_simp
    from returned_option[OF r] obtain w' where
      m: "makeRandomFile [''work''] (Num 1) (Num 60) (constant_world (1 / 2))
            = Some (Returned [''work'', ''file_abababab.css''] w')"
      by blast
    note t = written_content_follows_extension
      [of "constant_world (1 / 2)" "[''work'']" "Num 1" "Num 60" "[''work'', ''file_abababab.css'']" w',
       rule_format, OF conjI]
    from t[OF _ m] v obtain d w1 where
      d: "draftFile (Num 1) (Num 60) (constant_world (1 / 2)) = Some (d, w1)"
        "files w' [''work'', ''file_abababab.css''] = Some (File (d_final d))"
      by blast
    from c d(1) have "d_content d = replicate 31 (CHR ''A'')"
      "d_final d = ''/* ababab */\<newline>body::after { content: '' @ [CHR 0x22]
           @ replicate 30 (CHR ''A'') @ [CHR 0x22] @ ''; }\<newline>''"
      by simp_all
    with m d show ?thesis
      by (intro exI[of _ w'] exI[of _ d] exI[of _ w1]) simp
  qed
  have t: "(\<exists>w' d w1. makeRandomFile [''work''] (Num 2) (Num 2) (constant_world (3 / 4))
           = Some (Returned [''work'', ''file_abababab.txt''] w')
       \<and> draftFile (Num 2) (Num 2) (constant_world (3 / 4)) = Some (d, w1)
       \<and> d_content d = ''NN''
       \<and> files w' [''work'', ''file_abababab.txt''] = Some (File (d_final d))
       \<and> d_final d = ''NN'')"
  proof -
    have r: "map_option returned (makeRandomFile [''work''] (Num 2) (Num 2) (constant_world (3 / 4)))
         = Some (Some [''work'', ''file_abababab.txt''])"
      by code_simp
    have c: "map_option (\<lambda>(d, v). (d_content d, d_final d))
           (draftFile (Num 2) (Num 2) (constant_world (3 / 4)))
         = Some (''NN'', ''NN'')"
      by code_simp
    from returned_option[OF r] obtain w' where
      m: "makeRandomFile [''work''] (Num 2) (Num 2) (constant_world (3 / 4))
            = Some (Returned [''work'', ''file_abababab.txt''] w')"
      by blast
    note t = written_content_follows_extension
      [of "constant_world (3 / 4)" "[''work'']" "Num 2" "Num 2" "[''work'', ''file_abababab.txt'']" w',
       rule_format, OF conjI]
    from t[OF _ m] v obtain d w1 where
      d: "draftFile (Num 2) (Num 2) (constant_world (3 / 4)) = Some (d, w1)"
        "files w' [''work'', ''file_abababab.txt''] = Some (File (d_final d))"
      by blast
    from c d(1) have "d_content d = ''NN''"
      "d_final d = ''NN''"
      by simp_all
    with m d show ?thesis
      by (intro exI[of _ w'] exI[of _ d] exI[of _ w1]) simp
  qed
  show ?thesis
    apply (intro conjI)
           apply (rule v(1))
          apply (rule v(2))
         apply (rule v(3))
        apply (rule v(4))
       apply (rule h)
      apply (rule j)
     apply (rule c)
    apply (rule t)
    done
qed

text \<open>
  Claim C8, amended. When \<^verbatim>\<open>--help\<close> or \<^verbatim>\<open>-h\<close> is among the tokens that the argument
  loop reads as flags (it is not consumed as the value of the flag before it), the program
  prints the usage text and exits with code 0, and no file system call is made. This is so
  in particular when the token before it is not one of the five flags that take a value.
\<close>

theorem help_flag_prints_usage_and_exits:
  "(''--help'' \<in> set (flag_tokens argv) \<or> ''-h'' \<in> set (flag_tokens argv)
      \<longrightarrow> (\<exists>w'. main argv w = Some (0, w') \<and> stdout w' = stdout w @ [usage w]
            \<and> files w' = files w \<and> calls w' = calls w))
   \<and> (j < length argv \<and> (argv ! j = ''--help'' \<or> argv ! j = ''-h'')
        \<and> (j = 0 \<or> argv ! (j - 1) \<notin> set value_flags)
      \<longrightarrow> (\<exists>w'. main argv w = Some (0, w') \<and> stdout w' = stdout w @ [usage w]
            \<and> files w' = files w \<and> calls w' = calls w))"
proof -
  have a: "\<exists>w'. main argv w = Some (0, w') \<and> stdout w' = stdout w @ [usage w]
            \<and> files w' = files w \<and> calls w' = calls w"
    if "''--help'' \<in> set (flag_tokens argv) \<or> ''-h'' \<in> set (flag_tokens argv)"
    using main_help[OF that, of w] by (simp add: console_log_def)
  have "''--help'' \<in> set (flag_tokens argv) \<or> ''-h'' \<in> set (flag_tokens argv)"
    if "j < length argv" "argv ! j = ''--help'' \<or> argv ! j = ''-h''"
      "j = 0 \<or> argv ! (j - 1) \<notin> set value_flags"
    using flag_tokens_nth[OF that(1,3)] that(2) by auto
  with a show ?thesis by blast
qed

theorem help_flag_prints_usage_and_exits_witness:
  "''-h'' \<in> set (flag_tokens [''--count'', ''3'', ''-h'', ''--min''])
   \<and> 2 < length [''--count'', ''3'', ''-h'', ''--min'']
   \<and> [''--count'', ''3'', ''-h'', ''--min''] ! 2 = ''-h''
   \<and> [''--count'', ''3'', ''-h'', ''--min''] ! (2 - 1) \<notin> set value_flags
   \<and> (\<exists>w'. main [''--count'', ''3'', ''-h'', ''--min''] sample_world = Some (0, w')
         \<and> stdout w' = [usage sample_world] \<and> files w' = files sample_world \<and> calls w' = [])"
proof -
  have h: "''-h'' \<in> set (flag_tokens [''--count'', ''3'', ''-h'', ''--min''])"
    "2 < length [''--count'', ''3'', ''-h'', ''--min'']"
    "[''--count'', ''3'', ''-h'', ''--min''] ! 2 = ''-h''"
    "[''--count'', ''3'', ''-h'', ''--min''] ! (2 - 1) \<notin> set value_flags"
    by (simp_all add: value_flags_def)
  from help_flag_prints_usage_and_exits
    [of "[''--count'', ''3'', ''-h'', ''--min'']" sample_world 2] h
  show ?thesis by (simp add: sample_world_def)
qed

text \<open>
  Claim C8 as stated fails: in the arguments below \<^verbatim>\<open>--help\<close> is consumed as the value of
  \<^verbatim>\<open>--depth\<close>; the usage text is not printed, and a directory and a file are created.
\<close>

theorem help_consumed_as_value_counterexample:
  "''--help'' \<in> set [''--count'', ''1'', ''--min'', ''1'', ''--max'', ''2'', ''--depth'', ''--help'']
   \<and> map_option (\<lambda>(c, v). (c, stdout v, calls v))
        (main [''--count'', ''1'', ''--min'', ''1'', ''--max'', ''2'', ''--depth'', ''--help'']
           sample_world)
       = Some (0,
           [''Created 1 files under /work/dist'', '' - dist/ababab/ababab/file_abababab.css''],
           [Mkdir [''work'', ''dist''], Mkdir [''work'', ''dist'', ''ababab'', ''ababab''],
            WriteFile [''work'', ''dist'', ''ababab'', ''ababab'', ''file_abababab.css'']
              (''/* ababab */\<newline>body::after { content: '' @ [CHR 0x22] @ ''AA''
               @ [CHR 0x22] @ ''; }\<newline>'')])
   \<and> usage sample_world
       \<notin> set [''Created 1 files under /work/dist'', '' - dist/ababab/ababab/file_abababab.css'']"
  by code_simp

text \<open>
  Claim C9. A value token that parses to 0 is treated like a token that is not a number:
  the loop goes on with the options as they were, so \<^verbatim>\<open>--min 0\<close> leaves the minimum
  length at 50. The argument loop never sets the minimum length to 0: an effective
  minimum of 0 comes only from a negative parsed minimum that \<open>sanity\<close> clamps.
\<close>

theorem zero_value_keeps_option:
  "(i + 1 < length argv \<and> argv ! i \<in> set numeric_flags \<and> parseInt (argv ! (i + 1)) = Num 0
      \<longrightarrow> parse_loop argv i opts w = parse_loop argv (i + 2) opts w)
   \<and> parse_loop [''--min'', ''0''] 0 (DEFAULTS w) w = Returned (DEFAULTS w) w
   \<and> minLen (sanity (DEFAULTS w)) = Num 50
   \<and> (parse_loop args 0 (DEFAULTS w) w = Returned parsed w' \<and> minLen (sanity parsed) = Num 0
        \<longrightarrow> js_less (minLen parsed) (Num 0))"
proof -
  have "parse_loop argv i opts w = parse_loop argv (i + 2) opts w"
    if "i + 1 < length argv" "argv ! i \<in> set numeric_flags" "parseInt (argv ! (i + 1)) = Num 0"
    using that by (intro numeric_flag_step) (simp_all add: or_else_def)
  moreover have "parse_loop [''--min'', ''0''] 0 (DEFAULTS w) w = Returned (DEFAULTS w) w"
    by (simp add: parse_loop_all value_flags_def parseInt_examples or_else_def)
  moreover have "minLen (sanity (DEFAULTS w)) = Num 50"
    by (simp add: sanity_def DEFAULTS_def)
  moreover have "js_less (minLen parsed) (Num 0)"
    if p: "parse_loop args 0 (DEFAULTS w) w = Returned parsed w'"
      and z: "minLen (sanity parsed) = Num 0"
  proof -
    have "minLen parsed \<noteq> Num 0"
      using p by (intro parse_list_minLen_nonzero[of args "DEFAULTS w" w parsed w'])
        (simp_all add: parse_loop_all DEFAULTS_def)
    with z show ?thesis by (simp add: sanity_fields split: if_splits)
  qed
  ultimately show ?thesis by blast
qed

theorem zero_value_keeps_option_witness:
  "0 + 1 < length [''--max'', ''0'', ''--min'', ''2'']
   \<and> [''--max'', ''0'', ''--min'', ''2''] ! 0 \<in> set numeric_flags
   \<and> parseInt ([''--max'', ''0'', ''--min'', ''2''] ! (0 + 1)) = Num 0
   \<and> parse_loop [''--max'', ''0'', ''--min'', ''2''] 0 (DEFAULTS sample_world) sample_world
       = Returned ((DEFAULTS sample_world)\<lparr>minLen := Num 2\<rparr>) sample_world
   \<and> parse_loop [''--min'', ''-3''] 0 (DEFAULTS sample_world) sample_world
       = Returned ((DEFAULTS sample_world)\<lparr>minLen := Num (- 3)\<rparr>) sample_world
   \<and> minLen (sanity ((DEFAULTS sample_world)\<lparr>minLen := Num (- 3)\<rparr>)) = Num 0
   \<and> js_less (minLen ((DEFAULTS sample_world)\<lparr>minLen := Num (- 3)\<rparr>)) (Num 0)"
proof -
  have h: "0 + 1 < length [''--max'', ''0'', ''--min'', ''2'']"
    "[''--max'', ''0'', ''--min'', ''2''] ! 0 \<in> set numeric_flags"
    "parseInt ([''--max'', ''0'', ''--min'', ''2''] ! (0 + 1)) = Num 0"
    by (simp_all add: numeric_flags_def parseInt_examples)
  have p: "parse_loop [''--min'', ''-3''] 0 (DEFAULTS sample_world) sample_world
       = Returned ((DEFAULTS sample_world)\<lparr>minLen := Num (- 3)\<rparr>) sample_world"
    by (simp add: parse_loop_list value_flags_def parseInt_examples or_else_def)
  have z: "minLen (sanity ((DEFAULTS sample_world)\<lparr>minLen := Num (- 3)\<rparr>)) = Num 0"
    by (simp add: sanity_def Let_def)
  note t = zero_value_keeps_option
    [of 0 "[''--max'', ''0'', ''--min'', ''2'']" "DEFAULTS sample_world" sample_world
        "[''--min'', ''-3'']" "(DEFAULTS sample_world)\<lparr>minLen := Num (- 3)\<rparr>" sample_world]
  from t h
  have step: "parse_loop [''--max'', ''0'', ''--min'', ''2''] 0 (DEFAULTS sample_world)
       sample_world
     = parse_loop [''--max'', ''0'', ''--min'', ''2''] (0 + 2) (DEFAULTS sample_world)
       sample_world"
    by blast
  from t p z have neg: "js_less (minLen ((DEFAULTS sample_world)\<lparr>minLen := Num (- 3)\<rparr>)) (Num 0)"
    by blast
  have rest: "parse_loop [''--max'', ''0'', ''--min'', ''2''] (0 + 2) (DEFAULTS sample_world)
       sample_world
     = Returned ((DEFAULTS sample_world)\<lparr>minLen := Num 2\<rparr>) sample_world"
    by (simp add: parse_loop_list value_flags_def parseInt_examples or_else_def)
  from h p z step neg rest show ?thesis by simp
qed

text \<open>
  Claim C10. When the token after a numeric flag is itself a flag, it is consumed as the
  value: the numeric option keeps its value and the loop goes on behind the consumed token,
  which is never read as a flag. For \<^verbatim>\<open>--count --min 5\<close> all options stay at their
  defaults (count 20, minimum length 50); a consumed \<^verbatim>\<open>--help\<close> does not exit.
\<close>

theorem flag_token_consumed_as_value:
  "(i + 1 < length argv \<and> argv ! i \<in> set numeric_flags \<and> argv ! (i + 1) \<in> set all_flags
      \<longrightarrow> parse_loop argv i opts w = parse_loop argv (i + 2) opts w)
   \<and> parse_loop [''--count'', ''--min'', ''5''] 0 (DEFAULTS w) w = Returned (DEFAULTS w) w
   \<and> count (sanity (DEFAULTS w)) = Num 20 \<and> minLen (sanity (DEFAULTS w)) = Num 50
   \<and> parse_loop [''--depth'', ''--help''] 0 (DEFAULTS w) w = Returned (DEFAULTS w) w"
proof -
  have "parse_loop argv i opts w = parse_loop argv (i + 2) opts w"
    if "i + 1 < length argv" "argv ! i \<in> set numeric_flags" "argv ! (i + 1) \<in> set all_flags"
  proof -
    from that(3) have "parseInt (argv ! (i + 1)) = NaN"
      by (auto simp: all_flags_def value_flags_def parseInt_flags)
    with that(1,2) show ?thesis by (intro numeric_flag_step) (simp_all add: or_else_def)
  qed
  moreover have "parse_loop [''--count'', ''--min'', ''5''] 0 (DEFAULTS w) w = Returned (DEFAULTS w) w"
    by (simp add: parse_loop_all value_flags_def parseInt_flags or_else_def)
  moreover have "parse_loop [''--depth'', ''--help''] 0 (DEFAULTS w) w = Returned (DEFAULTS w) w"
    by (simp add: parse_loop_all value_flags_def parseInt_flags or_else_def)
  moreover have "count (sanity (DEFAULTS w)) = Num 20 \<and> minLen (sanity (DEFAULTS w)) = Num 50"
    by (simp add: sanity_def DEFAULTS_def)
  ultimately show ?thesis by blast
qed

theorem flag_token_consumed_as_value_witness:
  "0 + 1 < length [''--max'', ''--count'', ''2'']
   \<and> [''--max'', ''--count'', ''2''] ! 0 \<in> set numeric_flags
   \<and> [''--max'', ''--count'', ''2''] ! (0 + 1) \<in> set all_flags
   \<and> parse_loop [''--max'', ''--count'', ''2''] 0 (DEFAULTS sample_world) sample_world
       = parse_loop [''--max'', ''--count'', ''2''] (0 + 2) (DEFAULTS sample_world) sample_world
   \<and> parse_loop [''--max'', ''--count'', ''2''] 0 (DEFAULTS sample_world) sample_world
       = Returned (DEFAULTS sample_world) sample_world"
proof -
  have h: "0 + 1 < length [''--max'', ''--count'', ''2'']"
    "[''--max'', ''--count'', ''2''] ! 0 \<in> set numeric_flags"
    "[''--max'', ''--count'', ''2''] ! (0 + 1) \<in> set all_flags"
    by (simp_all add: numeric_flags_def all_flags_def value_flags_def)
  from flag_token_consumed_as_value
    [of 0 "[''--max'', ''--count'', ''2'']" "DEFAULTS sample_world" sample_world] h
  have step: "parse_loop [''--max'', ''--count'', ''2''] 0 (DEFAULTS sample_world) sample_world
     = parse_loop [''--max'', ''--count'', ''2''] (0 + 2) (DEFAULTS sample_world) sample_world"
    by blast
  have rest: "parse_loop [''--max'', ''--count'', ''2''] (0 + 2) (DEFAULTS sample_world)
       sample_world
     = Returned (DEFAULTS sample_world) sample_world"
    by (simp add: parse_loop_list value_flags_def)
  from h step rest show ?thesis by simp
qed

end
